theory Spec2Isabelle
  imports Complex_Main "HOL-Library.Word"
begin

unbundle bit_operations_syntax

section \<open>Data model\<close>

text \<open>
  The marketplace keeps its state in Mongoose documents. A \<open>Date\<close> is modelled as its
  millisecond timestamp, an \<open>ObjectId\<close> as its string form, and a collection with a
  unique key as a map from that key to the document.

  A JavaScript \<open>Number\<close> holding money or a quantity is a value of a type \<open>'n\<close> of
  which the definitions use only \<open>0\<close>, \<open>1\<close>, \<open>+\<close>, \<open>-\<close>, \<open>*\<close> and the
  comparisons, without any law of arithmetic. Each definition applies these operations
  in the order in which the code applies them, so a result that is proved for every such
  type holds for the code's IEEE doubles as it does for exact numbers. A result that
  needs exact arithmetic says so in the type of its numbers, and the examples compute
  with rationals. The one test for zero below stands for JavaScript's falsiness, which
  differs from it only on \<open>NaN\<close> and \<open>-0\<close>; neither arises from adding products of
  stored prices and quantities to 0.
\<close>

type_synonym time = int
type_synonym object_id = string

datatype order_status = Pending | Processing | Shipped | Delivered | Cancelled

datatype escrow_status = Held | Released | Refunded

datatype payment_status = PaymentPending | PaymentCompleted | PaymentFailed | PaymentRefunded

record 'n order_item =
  product :: object_id
  quantity :: 'n
  price :: 'n
  vendor :: object_id

text \<open>
  The fields of the order schema that the escrow and status logic reads or writes; the
  order number, the customer, the addresses and the other totals are left out.
  \<open>isNew\<close> is the document's Mongoose flag; \<open>escrowAmount\<close> and the dates are
  \<open>None\<close> while unset.
\<close>

record 'n order_doc =
  isNew :: bool
  items :: "'n order_item list"
  status :: order_status
  escrowStatus :: escrow_status
  escrowAmount :: "'n option"
  escrowReleaseDate :: "time option"
  deliveryProof :: "object_id option"
  total :: 'n
  trackingNumber :: "string option"
  trackingUrl :: "string option"
  paymentStatus :: payment_status

text \<open>
  A vendor's balance document, without its commission rate and its active flag, which no
  operation below reads. The collection is unique in \<open>vendor\<close>, so the store below
  is keyed by the vendor id and \<open>VendorBalance.findOne({ vendor })\<close> is a lookup.
\<close>

record 'n vendor_balance =
  bankAccount :: "object_id option"
  totalEarnings :: 'n
  availableBalance :: 'n
  pendingBalance :: 'n
  totalPayouts :: 'n
  lastPayout :: "time option"
  lastPayoutAmount :: 'n
  minimumPayoutAmount :: 'n
  updatedAt :: time

type_synonym 'n balances = "object_id \<rightharpoonup> 'n vendor_balance"

datatype error = EscrowNotHeld | InsufficientBalance | ValidationError | CastError

section \<open>JavaScript strings\<close>

text \<open>
  A JavaScript string is the list of its UTF-16 code units; \<open>js\<close> turns an ASCII
  literal into its code units.
\<close>

type_synonym js_string = "nat list"

definition js :: "string \<Rightarrow> js_string" where
  "js s = map of_char s"

text \<open>The characters matched by \<open>\s\<close> in a JavaScript regular expression.\<close>

definition isWhitespace :: "nat \<Rightarrow> bool" where
  "isWhitespace c \<longleftrightarrow>
     (9 \<le> c \<and> c \<le> 13) \<or> c = 32 \<or> c = 160 \<or> c = 5760 \<or> (8192 \<le> c \<and> c \<le> 8202) \<or>
     c = 8232 \<or> c = 8233 \<or> c = 8239 \<or> c = 8287 \<or> c = 12288 \<or> c = 65279"

text \<open>
  \<open>String.prototype.trim\<close>, which is also what a schema path with \<open>trim: true\<close>
  applies to a string assigned to it: white space is removed from both ends.
\<close>

definition trim :: "js_string \<Rightarrow> js_string" where
  "trim s = rev (dropWhile isWhitespace (rev (dropWhile isWhitespace s)))"

section \<open>Order model: escrow hooks and methods\<close>

text \<open>
  \<open>vendorAmounts\<close> is a JavaScript object used as a dictionary; its entries are
  enumerated in insertion order, so it is an association list. \<open>addAmount\<close> is one
  pass of the \<open>forEach\<close> body: an absent or zero entry is first set to 0, then the
  item total is added.
\<close>

fun addAmount :: "object_id \<Rightarrow> 'n \<Rightarrow> (object_id \<times> 'n) list \<Rightarrow> (object_id \<times> ('n::{zero,plus})) list" where
  "addAmount vendorId itemTotal [] = [(vendorId, 0 + itemTotal)]"
| "addAmount vendorId itemTotal ((k, a) # rest) =
     (if k = vendorId then (k, (if a = 0 then 0 else a) + itemTotal) # rest
      else (k, a) # addAmount vendorId itemTotal rest)"

definition groupItem :: "(object_id \<times> 'n) list \<Rightarrow> 'n order_item \<Rightarrow> (object_id \<times> ('n::{zero,plus,times})) list" where
  "groupItem acc item = addAmount (vendor item) (price item * quantity item) acc"

definition vendorAmounts :: "'n order_item list \<Rightarrow> (object_id \<times> ('n::{zero,plus,times})) list" where
  "vendorAmounts its = foldl groupItem [] its"

text \<open>
  \<open>vendorBalance.save()\<close> on a document read from the collection. The schema has
  \<open>timestamps: true\<close>, so when the save finds a path of the document modified it sets
  \<open>updatedAt\<close> to the time of the save; a document whose assignments changed no value
  is written back as it was. Stored balances and the amounts added to them are not
  negative, so the \<open>min: 0\<close> validators of the schema let the save through.
\<close>

definition saveBalance :: "time \<Rightarrow> 'n vendor_balance \<Rightarrow> 'n vendor_balance \<Rightarrow> 'n vendor_balance" where
  "saveBalance now stored doc = (if doc = stored then doc else doc\<lparr>updatedAt := now\<rparr>)"

text \<open>
  The update loop of \<open>releaseEscrow\<close>: a vendor without a balance document is skipped.
  The clock is read as one instant \<open>now\<close> throughout a call.
\<close>

fun releaseLoop :: "time \<Rightarrow> (object_id \<times> 'n) list \<Rightarrow> 'n balances \<Rightarrow> ('n::{zero,plus,minus,ord}) balances" where
  "releaseLoop now [] st = st"
| "releaseLoop now ((vendorId, amount) # rest) st =
     (case st vendorId of
        None \<Rightarrow> releaseLoop now rest st
      | Some vb \<Rightarrow>
          releaseLoop now rest (st(vendorId \<mapsto> saveBalance now vb (vb\<lparr>
            pendingBalance := max 0 (pendingBalance vb - amount),
            availableBalance := availableBalance vb + amount,
            totalEarnings := totalEarnings vb + amount\<rparr>))))"

text \<open>
  \<open>releaseEscrow\<close> throws before touching anything when the escrow is not held. The
  result carries the thrown error, if any, together with the order and the balances as
  they are afterwards. The method ends by saving the order, a stored document that has
  passed the validators of the schema and is not new, so that save writes the two
  assignments and its post-save hook does nothing.
\<close>

definition releaseEscrow ::
  "time \<Rightarrow> 'n order_doc \<Rightarrow> 'n balances \<Rightarrow> error option \<times> 'n order_doc \<times> ('n::{zero,plus,minus,times,ord}) balances" where
  "releaseEscrow now ord st =
     (if escrowStatus ord \<noteq> Held then (Some EscrowNotHeld, ord, st)
      else (None,
            ord\<lparr>escrowStatus := Released, escrowReleaseDate := Some now\<rparr>,
            releaseLoop now (vendorAmounts (items ord)) st))"

fun pendingLoop :: "time \<Rightarrow> (object_id \<times> 'n) list \<Rightarrow> 'n balances \<Rightarrow> ('n::plus) balances" where
  "pendingLoop now [] st = st"
| "pendingLoop now ((vendorId, amount) # rest) st =
     (case st vendorId of
        None \<Rightarrow> pendingLoop now rest st
      | Some vb \<Rightarrow>
          pendingLoop now rest (st(vendorId \<mapsto> saveBalance now vb (vb\<lparr>
            pendingBalance := pendingBalance vb + amount\<rparr>))))"

definition addToVendorPending :: "time \<Rightarrow> 'n order_doc \<Rightarrow> 'n balances \<Rightarrow> ('n::{zero,plus,times}) balances" where
  "addToVendorPending now ord st =
     (if escrowStatus ord \<noteq> Held then st
      else pendingLoop now (vendorAmounts (items ord)) st)"

subsection \<open>Saving an order\<close>

text \<open>
  \<open>order.save()\<close> runs, in this order: the validators of the schema, the pre-save
  hooks, the write to the collection, and the post-save hook. The validators below are
  those of the modelled fields: \<open>escrowAmount\<close> and \<open>total\<close> are \<open>required\<close> with
  \<open>min: 0\<close>, a quantity has \<open>min: 1\<close> and a price \<open>min: 0\<close>.
\<close>

definition validOrder :: "('n::{zero,one,ord}) order_doc \<Rightarrow> bool" where
  "validOrder ord \<longleftrightarrow>
     (case escrowAmount ord of None \<Rightarrow> False | Some e \<Rightarrow> 0 \<le> e) \<and>
     0 \<le> total ord \<and>
     list_all (\<lambda>item. 1 \<le> quantity item \<and> 0 \<le> price item) (items ord)"

text \<open>
  The body of the second pre-save hook, restricted to the escrow amount it sets. The test
  \<open>!this.escrowAmount\<close> holds of an unset amount and of 0; as the hook runs after the
  validators, which refuse an unset amount, it is 0 that the hook replaces when an order
  is saved.
\<close>

definition preSaveEscrow :: "('n::zero) order_doc \<Rightarrow> 'n order_doc" where
  "preSaveEscrow ord =
     (if isNew ord \<and> (escrowAmount ord = None \<or> escrowAmount ord = Some 0)
      then ord\<lparr>escrowAmount := Some (total ord)\<rparr> else ord)"

text \<open>
  The body of the post-save hook, which reads the document's \<open>isNew\<close> flag as it is when
  the hook runs.
\<close>

definition postSave :: "time \<Rightarrow> 'n order_doc \<Rightarrow> 'n balances \<Rightarrow> ('n::{zero,plus,times}) balances" where
  "postSave now doc st =
     (if isNew doc \<and> escrowStatus doc = Held \<and> paymentStatus doc = PaymentCompleted
      then addToVendorPending now doc st else st)"

text \<open>
  \<open>order.save()\<close> as a whole. A document that fails validation is rejected before any
  hook runs and nothing is written. Mongoose clears \<open>isNew\<close> when it writes the
  document, before it calls the post-save hooks, so the post-save hook always runs on a
  document whose flag is false.
\<close>

definition orderSave ::
  "time \<Rightarrow> 'n order_doc \<Rightarrow> 'n balances \<Rightarrow> error option \<times> 'n order_doc \<times> ('n::{zero,one,plus,times,ord}) balances" where
  "orderSave now ord st =
     (if \<not> validOrder ord then (Some ValidationError, ord, st)
      else let written = (preSaveEscrow ord)\<lparr>isNew := False\<rparr>
           in (None, written, postSave now written st))"

text \<open>\<open>updateStatus\<close> and \<open>addTracking\<close>; status changes made by the routes have the same form.\<close>

definition updateStatus :: "order_status \<Rightarrow> 'n order_doc \<Rightarrow> 'n order_doc" where
  "updateStatus newStatus ord = ord\<lparr>status := newStatus\<rparr>"

definition addTracking :: "string \<Rightarrow> string \<Rightarrow> 'n order_doc \<Rightarrow> 'n order_doc" where
  "addTracking number url ord =
     ord\<lparr>trackingNumber := Some number, trackingUrl := Some url, status := Shipped\<rparr>"

section \<open>Admin routes on orders\<close>

datatype admin_response =
    OrderNotFound404
  | EscrowNotHeld400
  | EscrowReleased200
  | StatusUpdated200
  | ServerError500

text \<open>
  \<open>POST /orders/:orderId/release-escrow\<close>. The order argument is the result of
  \<open>Order.findById\<close>.
\<close>

definition adminReleaseEscrow ::
  "time \<Rightarrow> 'n order_doc option \<Rightarrow> 'n balances \<Rightarrow>
   admin_response \<times> 'n order_doc option \<times> ('n::{zero,plus,minus,times,ord}) balances" where
  "adminReleaseEscrow now found st =
     (case found of
        None \<Rightarrow> (OrderNotFound404, None, st)
      | Some ord \<Rightarrow>
          if escrowStatus ord \<noteq> Held then (EscrowNotHeld400, Some ord, st)
          else (case releaseEscrow now ord st of
                  (Some e, ord', st') \<Rightarrow> (ServerError500, Some ord', st')
                | (None, ord', st') \<Rightarrow> (EscrowReleased200, Some ord', st')))"

text \<open>\<open>PATCH /orders/:orderId/status\<close>.\<close>

definition adminUpdateStatus ::
  "time \<Rightarrow> order_status \<Rightarrow> 'n order_doc option \<Rightarrow> 'n balances \<Rightarrow>
   admin_response \<times> 'n order_doc option \<times> ('n::{zero,plus,minus,times,ord}) balances" where
  "adminUpdateStatus now newStatus found st =
     (case found of
        None \<Rightarrow> (OrderNotFound404, None, st)
      | Some ord0 \<Rightarrow>
          let ord = ord0\<lparr>status := newStatus\<rparr> in
          if newStatus = Delivered \<and> escrowStatus ord = Held
          then (case releaseEscrow now ord st of
                  (Some e, ord', st') \<Rightarrow> (ServerError500, Some ord', st')
                | (None, ord', st') \<Rightarrow> (StatusUpdated200, Some ord', st'))
          else (StatusUpdated200, Some ord, st))"

text \<open>
  Every operation of the code base that writes an order document, as one step on the
  pair of the order and the vendor balances. The hook bodies and \<open>addToVendorPending\<close>
  are steps of their own, applicable to any document, beside the save that runs them.
\<close>

datatype order_op =
    OpUpdateStatus order_status
  | OpAddTracking string string
  | OpReleaseEscrow time
  | OpAddToVendorPending time
  | OpPreSave
  | OpPostSave time
  | OpSave time
  | OpAdminReleaseEscrow time
  | OpAdminUpdateStatus time order_status

fun orderStep :: "order_op \<Rightarrow> 'n order_doc \<times> 'n balances \<Rightarrow> 'n order_doc \<times> ('n::{zero,one,plus,minus,times,ord}) balances" where
  "orderStep (OpUpdateStatus s) (ord, st) = (updateStatus s ord, st)"
| "orderStep (OpAddTracking n u) (ord, st) = (addTracking n u ord, st)"
| "orderStep (OpReleaseEscrow now) (ord, st) = snd (releaseEscrow now ord st)"
| "orderStep (OpAddToVendorPending now) (ord, st) = (ord, addToVendorPending now ord st)"
| "orderStep OpPreSave (ord, st) = (preSaveEscrow ord, st)"
| "orderStep (OpPostSave now) (ord, st) = (ord, postSave now ord st)"
| "orderStep (OpSave now) (ord, st) = snd (orderSave now ord st)"
| "orderStep (OpAdminReleaseEscrow now) (ord, st) =
     (case adminReleaseEscrow now (Some ord) st of
        (r, Some ord', st') \<Rightarrow> (ord', st') | (r, None, st') \<Rightarrow> (ord, st'))"
| "orderStep (OpAdminUpdateStatus now s) (ord, st) =
     (case adminUpdateStatus now s (Some ord) st of
        (r, Some ord', st') \<Rightarrow> (ord', st') | (r, None, st') \<Rightarrow> (ord, st'))"

definition orderRun :: "order_op list \<Rightarrow> 'n order_doc \<times> 'n balances \<Rightarrow> 'n order_doc \<times> ('n::{zero,one,plus,minus,times,ord}) balances" where
  "orderRun ops s = foldl (\<lambda>s' op. orderStep op s') s ops"

text \<open>
  The operations through which the routes and the order's methods reach the balances:
  everything above except a bare call of a hook body or of \<open>addToVendorPending\<close>,
  which the code runs only from within a save.
\<close>

fun entryPoint :: "order_op \<Rightarrow> bool" where
  "entryPoint (OpAddToVendorPending now) = False"
| "entryPoint OpPreSave = False"
| "entryPoint (OpPostSave now) = False"
| "entryPoint op = True"

section \<open>Reference quantities for the escrow properties\<close>

definition itemTotal :: "('n::times) order_item \<Rightarrow> 'n" where
  "itemTotal item = price item * quantity item"

text \<open>
  A vendor's share of an order: the sum of price times quantity over that vendor's items,
  added up from 0 in the order of the items.
\<close>

definition shareOf :: "object_id \<Rightarrow> 'n order_item list \<Rightarrow> ('n::{zero,plus,times})" where
  "shareOf v its = foldl (+) 0 (map itemTotal (filter (\<lambda>item. vendor item = v) its))"

definition itemsTotal :: "'n order_item list \<Rightarrow> ('n::{zero,plus,times})" where
  "itemsTotal its = foldl (+) 0 (map itemTotal its)"

text \<open>The distinct vendors represented in an order's line items.\<close>

definition orderVendors :: "'n order_item list \<Rightarrow> object_id list" where
  "orderVendors its = remdups (map vendor its)"

text \<open>The three assignments of the release loop, and the one of the pending loop.\<close>

definition released :: "'n \<Rightarrow> 'n vendor_balance \<Rightarrow> ('n::{zero,plus,minus,ord}) vendor_balance" where
  "released share vb = vb\<lparr>
     pendingBalance := max 0 (pendingBalance vb - share),
     availableBalance := availableBalance vb + share,
     totalEarnings := totalEarnings vb + share\<rparr>"


text \<open>What a vendor holds in the two pools together; nothing without a balance document.\<close>

definition heldFor :: "'n balances \<Rightarrow> object_id \<Rightarrow> ('n::{zero,plus})" where
  "heldFor st v = (case st v of None \<Rightarrow> 0 | Some vb \<Rightarrow> pendingBalance vb + availableBalance vb)"

text \<open>
  What the vendors of an order have gained in the two pools together between the
  balances \<open>st\<close> and the balances \<open>st'\<close>.
\<close>

definition creditedToOrder :: "'n order_item list \<Rightarrow> 'n balances \<Rightarrow> 'n balances \<Rightarrow> ('n::{zero,plus,minus})" where
  "creditedToOrder its st st' =
     foldl (+) 0 (map (\<lambda>v. heldFor st' v - heldFor st v) (orderVendors its))"

text \<open>The amount recorded for a vendor in a grouping, 0 when the vendor has no entry.\<close>

definition amountIn :: "(object_id \<times> 'n) list \<Rightarrow> object_id \<Rightarrow> ('n::zero)" where
  "amountIn acc v = (case map_of acc v of None \<Rightarrow> 0 | Some a \<Rightarrow> a)"

section \<open>Example documents\<close>

text \<open>
  A stored order of 135.00 in goods from three vendors with a total of 150.00 after
  shipping and tax, which is also its escrow amount. Vendors A and B have balance
  documents; vendor C has none.
\<close>

definition exampleItems :: "rat order_item list" where
  "exampleItems =
     [\<lparr>product = ''p1'', quantity = 1, price = 50, vendor = ''vendorA''\<rparr>,
      \<lparr>product = ''p2'', quantity = 1, price = 40, vendor = ''vendorB''\<rparr>,
      \<lparr>product = ''p3'', quantity = 2, price = 15, vendor = ''vendorA''\<rparr>,
      \<lparr>product = ''p4'', quantity = 3, price = 5, vendor = ''vendorC''\<rparr>]"

definition exampleOrder :: "rat order_doc" where
  "exampleOrder = \<lparr>isNew = False, items = exampleItems, status = Pending, escrowStatus = Held,
     escrowAmount = Some 150, escrowReleaseDate = None, deliveryProof = None, total = 150,
     trackingNumber = None, trackingUrl = None, paymentStatus = PaymentCompleted\<rparr>"


text \<open>
  The same order as a new document that has not been saved yet, once with the escrow
  amount given as 0 and once as the order route constructs it, without an escrow amount.
\<close>

definition newOrder :: "rat order_doc" where
  "newOrder = exampleOrder\<lparr>isNew := True, escrowAmount := Some 0\<rparr>"

definition routeOrder :: "rat order_doc" where
  "routeOrder = exampleOrder\<lparr>isNew := True, escrowAmount := None\<rparr>"

text \<open>A stored order for the same goods whose total, taken from the request, is 100.00.\<close>

definition underpricedOrder :: "rat order_doc" where
  "underpricedOrder = exampleOrder\<lparr>escrowAmount := Some 100, total := 100\<rparr>"

definition emptyBalance :: "rat vendor_balance" where
  "emptyBalance = \<lparr>bankAccount = Some ''bank1'', totalEarnings = 0, availableBalance = 0,
     pendingBalance = 0, totalPayouts = 0, lastPayout = None, lastPayoutAmount = 0,
     minimumPayoutAmount = 10, updatedAt = 0\<rparr>"

definition exampleBalances :: "rat balances" where
  "exampleBalances = [''vendorA'' \<mapsto> emptyBalance\<lparr>pendingBalance := 80\<rparr>,
                      ''vendorB'' \<mapsto> emptyBalance\<lparr>pendingBalance := 25, availableBalance := 5\<rparr>]"

text \<open>Balance documents of vendors A and B with nothing in them.\<close>

definition freshBalances :: "rat balances" where
  "freshBalances = [''vendorA'' \<mapsto> emptyBalance, ''vendorB'' \<mapsto> emptyBalance]"

section \<open>Vendor balance methods and the payout route\<close>

text \<open>
  The amount of a payout request as the body parsers deliver it: a JSON number, a string
  (a JSON string, or any field of a urlencoded body), or a value that is neither.
\<close>

datatype 'n amount_value = NumberValue 'n | StringValue js_string | OtherValue

text \<open>
  JavaScript's conversions between strings and numbers and the character count of the
  validator library are not part of the code base and enter as a parameter.
  \<open>numericValue lib s\<close> is the number that the string \<open>s\<close> denotes when it is a float
  literal, which is what \<open>isFloat\<close> and a numeric comparison or subtraction read from
  it, and \<open>None\<close> for any other string. \<open>concatNumber lib n s\<close> is the number to which
  a \<open>Number\<close> path casts the string \<open>n + s\<close>, the digits of \<open>n\<close> followed by \<open>s\<close>,
  and \<open>None\<close> when that string is not numeric. \<open>charCount lib s\<close> is the length that
  \<open>isLength\<close> measures.
\<close>

record 'n js_lib =
  numericValue :: "js_string \<Rightarrow> 'n option"
  concatNumber :: "'n \<Rightarrow> js_string \<Rightarrow> 'n option"
  charCount :: "js_string \<Rightarrow> nat"

text \<open>The number that an amount stands for where JavaScript converts it to one.\<close>

definition amountNumber :: "'n js_lib \<Rightarrow> 'n amount_value \<Rightarrow> 'n option" where
  "amountNumber lib amount =
     (case amount of
        NumberValue n \<Rightarrow> Some n
      | StringValue s \<Rightarrow> numericValue lib s
      | OtherValue \<Rightarrow> None)"

text \<open>
  \<open>processPayout\<close> throws before writing when the amount exceeds the available
  balance. The comparison and the subtraction convert a string amount to its number;
  \<open>totalPayouts += amount\<close> adds a number and concatenates a string, and the save
  fails when a path cannot be cast to a number. The clock is read as one instant
  \<open>now\<close>.
\<close>

definition processPayout ::
  "'n js_lib \<Rightarrow> time \<Rightarrow> 'n amount_value \<Rightarrow> 'n vendor_balance \<Rightarrow> error option \<times> ('n::{plus,minus,ord}) vendor_balance" where
  "processPayout lib now amount vb =
     (case amountNumber lib amount of
        None \<Rightarrow> (Some CastError, vb)
      | Some n \<Rightarrow>
          if n > availableBalance vb then (Some InsufficientBalance, vb)
          else (case (case amount of
                        StringValue s \<Rightarrow> concatNumber lib (totalPayouts vb) s
                      | _ \<Rightarrow> Some (totalPayouts vb + n)) of
                  None \<Rightarrow> (Some CastError, vb)
                | Some newTotal \<Rightarrow>
                    (None, vb\<lparr>
                       availableBalance := availableBalance vb - n,
                       totalPayouts := newTotal,
                       lastPayout := Some now,
                       lastPayoutAmount := n,
                       updatedAt := now\<rparr>)))"

record bank_account =
  isActive :: bool

text \<open>
  What the payout route reads and writes: the vendor profile of each user, the balance
  documents and the bank accounts.
\<close>

record 'n payout_db =
  vendorOfUser :: "object_id \<rightharpoonup> object_id"
  balanceDocs :: "'n balances"
  bankAccounts :: "object_id \<rightharpoonup> bank_account"

datatype 'n payout_response =
    ValidationFailed400
  | OnlyVendors403
  | VendorProfileNotFound404
  | VendorBalanceNotFound404
  | NoBankAccount400
  | BankAccountNotActive400
  | BelowMinimumPayout400
  | InsufficientAvailableBalance400
  | PayoutFailed500 error
  | PayoutProcessed200 "'n amount_value"

text \<open>
  The validators of the route. \<open>isFloat({ min: 10.00 })\<close> checks the amount without
  converting it: a number and a string that denotes a number both pass when that number
  is at least 10. \<open>optional().trim().isLength({ max: 200 })\<close> passes an absent
  description and one that, trimmed, counts at most 200 characters.
\<close>

definition amountValid :: "'n js_lib \<Rightarrow> ('n::{numeral,ord}) amount_value \<Rightarrow> bool" where
  "amountValid lib amount = (case amountNumber lib amount of None \<Rightarrow> False | Some n \<Rightarrow> 10 \<le> n)"

definition descriptionValid :: "'n js_lib \<Rightarrow> js_string option \<Rightarrow> bool" where
  "descriptionValid lib description =
     (case description of None \<Rightarrow> True | Some d \<Rightarrow> charCount lib (trim d) \<le> 200)"

text \<open>
  \<open>POST /payout\<close> for the authenticated user \<open>userId\<close> with role \<open>role\<close> and the
  body fields \<open>amount\<close> and \<open>description\<close>. The comparisons with the minimum and with
  the available balance read the number of the amount, which exists once the validators
  have passed.
\<close>

definition payoutRoute ::
  "'n js_lib \<Rightarrow> time \<Rightarrow> string \<Rightarrow> object_id \<Rightarrow> 'n amount_value \<Rightarrow> js_string option \<Rightarrow> 'n payout_db \<Rightarrow>
   'n payout_response \<times> ('n::{numeral,minus,ord}) payout_db" where
  "payoutRoute lib now role userId amount description db =
     (if \<not> (amountValid lib amount \<and> descriptionValid lib description) then (ValidationFailed400, db)
      else if role \<noteq> ''vendor'' then (OnlyVendors403, db)
      else case vendorOfUser db userId of
        None \<Rightarrow> (VendorProfileNotFound404, db)
      | Some vendorId \<Rightarrow>
          (case balanceDocs db vendorId of
             None \<Rightarrow> (VendorBalanceNotFound404, db)
           | Some vb \<Rightarrow>
               (case bankAccount vb of
                  None \<Rightarrow> (NoBankAccount400, db)
                | Some bankId \<Rightarrow>
                    if (case bankAccounts db bankId of None \<Rightarrow> True | Some acct \<Rightarrow> \<not> isActive acct)
                    then (BankAccountNotActive400, db)
                    else if (case amountNumber lib amount of
                               None \<Rightarrow> False | Some n \<Rightarrow> n < minimumPayoutAmount vb)
                    then (BelowMinimumPayout400, db)
                    else if (case amountNumber lib amount of
                               None \<Rightarrow> False | Some n \<Rightarrow> n > availableBalance vb)
                    then (InsufficientAvailableBalance400, db)
                    else (case processPayout lib now amount vb of
                            (Some e, vb') \<Rightarrow> (PayoutFailed500 e, db)
                          | (None, vb') \<Rightarrow>
                              (PayoutProcessed200 amount,
                               db\<lparr>balanceDocs := (balanceDocs db)(vendorId \<mapsto> vb')\<rparr>)))))"

definition payoutSucceeded :: "'n payout_response \<Rightarrow> bool" where
  "payoutSucceeded r = (case r of PayoutProcessed200 a \<Rightarrow> True | _ \<Rightarrow> False)"

definition exampleDb :: "rat \<Rightarrow> rat \<Rightarrow> rat payout_db" where
  "exampleDb minimum available =
     \<lparr>vendorOfUser = [''user1'' \<mapsto> ''vendorA''],
      balanceDocs = [''vendorA'' \<mapsto> emptyBalance\<lparr>minimumPayoutAmount := minimum,
                                                  availableBalance := available\<rparr>],
      bankAccounts = [''bank1'' \<mapsto> \<lparr>isActive = True\<rparr>]\<rparr>"

text \<open>
  The conversions on the strings of the examples: \<open>'10'\<close> denotes 10, and \<open>5 + '10'\<close>
  is the string \<open>'510'\<close>, which is cast to 510. The count is that of code units.
\<close>

definition exampleLib :: "rat js_lib" where
  "exampleLib =
     \<lparr>numericValue = (\<lambda>s. if s = js ''10'' then Some 10 else None),
      concatNumber = (\<lambda>n s. if n = 5 \<and> s = js ''10'' then Some 510 else None),
      charCount = length\<rparr>"

section \<open>Delivery proofs\<close>

datatype verification_status = VerificationPending | Approved | Rejected | RequiresReview

text \<open>
  The fields of the delivery proof schema that upload and review read or write. The
  collection is unique in \<open>order\<close>, so \<open>DeliveryProof.findOne({ order })\<close> yields at
  most one document.
\<close>

record delivery_proof =
  imageUrl :: string
  imageId :: string
  uploadedAt :: time
  verificationStatus :: verification_status
  adminNotes :: "js_string option"
  reviewedBy :: "object_id option"
  reviewedAt :: "time option"
  canReupload :: bool
  reuploadExpiresAt :: time
  metadata :: "string option"

text \<open>The schema's virtual \<open>canStillReupload\<close>.\<close>

definition canStillReupload :: "time \<Rightarrow> delivery_proof \<Rightarrow> bool" where
  "canStillReupload now p \<longleftrightarrow> canReupload p \<and> now < reuploadExpiresAt p"

text \<open>
  Saving a proof runs the pre-save hook: when \<open>uploadedAt\<close> differs from the stored
  value, the expiry is recomputed from it.
\<close>

definition proofSave :: "delivery_proof \<Rightarrow> delivery_proof \<Rightarrow> delivery_proof" where
  "proofSave stored doc =
     (if uploadedAt doc \<noteq> uploadedAt stored
      then doc\<lparr>reuploadExpiresAt := uploadedAt doc + 15 * 60 * 1000\<rparr> else doc)"

text \<open>
  The save at the end of a review method. Before the hook runs, the schema validates the
  paths that were modified: \<open>adminNotes\<close> has \<open>maxlength: 1000\<close>, counted in code
  units, and notes longer than that make the save fail with nothing written.
\<close>

definition reviewSave :: "delivery_proof \<Rightarrow> delivery_proof \<Rightarrow> error option \<times> delivery_proof" where
  "reviewSave stored doc =
     (if adminNotes doc \<noteq> adminNotes stored \<and>
         (case adminNotes doc of None \<Rightarrow> False | Some s \<Rightarrow> 1000 < length s)
      then (Some ValidationError, stored)
      else (None, proofSave stored doc))"

text \<open>
  The review methods. \<open>adminNotes\<close> has \<open>trim: true\<close>, so notes are stored trimmed;
  \<open>approve\<close> assigns them only when the argument is a non-empty string. The result is
  the thrown error, if any, and the proof as it is stored afterwards.
\<close>

definition approve :: "time \<Rightarrow> object_id \<Rightarrow> js_string \<Rightarrow> delivery_proof \<Rightarrow> error option \<times> delivery_proof" where
  "approve now adminId notes p =
     reviewSave p (p\<lparr>
       verificationStatus := Approved,
       reviewedBy := Some adminId,
       reviewedAt := Some now,
       canReupload := False,
       adminNotes := (if notes \<noteq> [] then Some (trim notes) else adminNotes p)\<rparr>)"

definition reject :: "time \<Rightarrow> object_id \<Rightarrow> js_string \<Rightarrow> delivery_proof \<Rightarrow> error option \<times> delivery_proof" where
  "reject now adminId notes p =
     reviewSave p (p\<lparr>
       verificationStatus := Rejected,
       reviewedBy := Some adminId,
       reviewedAt := Some now,
       adminNotes := Some (trim notes)\<rparr>)"

definition requiresReview :: "time \<Rightarrow> object_id \<Rightarrow> js_string \<Rightarrow> delivery_proof \<Rightarrow> error option \<times> delivery_proof" where
  "requiresReview now adminId notes p =
     reviewSave p (p\<lparr>
       verificationStatus := RequiresReview,
       reviewedBy := Some adminId,
       reviewedAt := Some now,
       adminNotes := Some (trim notes)\<rparr>)"

subsection \<open>Vendor upload route\<close>

text \<open>The window check of the re-upload branch: minutes since the upload, compared with 15.\<close>

definition reuploadWindowExpired :: "time \<Rightarrow> delivery_proof \<Rightarrow> bool" where
  "reuploadWindowExpired now p \<longleftrightarrow> rat_of_int (now - uploadedAt p) / (1000 * 60) > 15"

text \<open>The writes of the re-upload branch, followed by the save.\<close>

definition reupload :: "time \<Rightarrow> string \<Rightarrow> string \<Rightarrow> string option \<Rightarrow> delivery_proof \<Rightarrow> delivery_proof" where
  "reupload now url fileId meta p =
     proofSave p (p\<lparr>imageUrl := url, imageId := fileId, metadata := meta, uploadedAt := now\<rparr>)"

text \<open>A newly constructed proof with the schema defaults.\<close>

definition newProof :: "time \<Rightarrow> string \<Rightarrow> string \<Rightarrow> string option \<Rightarrow> delivery_proof" where
  "newProof now url fileId meta =
     \<lparr>imageUrl = url, imageId = fileId, uploadedAt = now,
      verificationStatus = VerificationPending, adminNotes = None, reviewedBy = None,
      reviewedAt = None, canReupload = True, reuploadExpiresAt = now + 15 * 60 * 1000,
      metadata = meta\<rparr>"

datatype upload_response =
    UploadVendorNotFound404
  | ImageRequired400
  | UploadOrderNotFound404
  | ReuploadWindowExpired400
  | ProofUpdated200
  | ProofUploaded200

text \<open>
  \<open>POST /orders/:orderId/delivery-proof\<close>. \<open>vendorProfile\<close> is the caller's vendor
  id if there is one, \<open>found\<close> the order with the requested id, \<open>existing\<close> the proof
  already stored for it, and \<open>proofId\<close> the id a new proof would get. An absent image
  URL or id is the empty string.
\<close>

definition deliveryProofRoute ::
  "time \<Rightarrow> object_id option \<Rightarrow> string \<Rightarrow> string \<Rightarrow> string option \<Rightarrow> object_id \<Rightarrow>
   ('n::zero) order_doc option \<Rightarrow> delivery_proof option \<Rightarrow>
   upload_response \<times> 'n order_doc option \<times> delivery_proof option" where
  "deliveryProofRoute now vendorProfile url fileId meta proofId found existing =
     (case vendorProfile of
        None \<Rightarrow> (UploadVendorNotFound404, found, existing)
      | Some vendorId \<Rightarrow>
          if url = [] \<or> fileId = [] then (ImageRequired400, found, existing)
          else (case found of
                  None \<Rightarrow> (UploadOrderNotFound404, found, existing)
                | Some ord \<Rightarrow>
                    if \<not> (vendorId \<in> vendor ` set (items ord) \<and> status ord = Pending)
                    then (UploadOrderNotFound404, found, existing)
                    else (case existing of
                            Some p \<Rightarrow>
                              if reuploadWindowExpired now p
                              then (ReuploadWindowExpired400, found, existing)
                              else (ProofUpdated200, found, Some (reupload now url fileId meta p))
                          | None \<Rightarrow>
                              (ProofUploaded200,
                               Some (ord\<lparr>
                                 deliveryProof := Some proofId,
                                 escrowAmount :=
                                   (if escrowAmount ord = None \<or> escrowAmount ord = Some 0
                                    then Some (total ord) else escrowAmount ord)\<rparr>),
                               Some (newProof now url fileId meta)))))"

subsection \<open>Admin review route\<close>

datatype review_response =
    ProofNotFound404
  | InvalidAction400
  | Reviewed200
  | ReviewServerError500

text \<open>
  \<open>PATCH /arrival-proofs/:proofId/review\<close>. \<open>found\<close> is the proof, \<open>populated\<close> the
  order it refers to as \<open>populate\<close> returns it, and absent notes reach the methods as
  their default, the empty string. A review method that throws sends the route to its
  \<open>catch\<close>, which answers 500.
\<close>

definition reviewRoute ::
  "time \<Rightarrow> object_id \<Rightarrow> string \<Rightarrow> js_string option \<Rightarrow> delivery_proof option \<Rightarrow> 'n order_doc option \<Rightarrow>
   review_response \<times> delivery_proof option \<times> 'n order_doc option" where
  "reviewRoute now adminId action notes found populated =
     (case found of
        None \<Rightarrow> (ProofNotFound404, None, populated)
      | Some p \<Rightarrow>
          let n = (case notes of None \<Rightarrow> [] | Some s \<Rightarrow> s) in
          if action = ''approve'' then
            (case approve now adminId n p of
               (Some e, p') \<Rightarrow> (ReviewServerError500, Some p', populated)
             | (None, p') \<Rightarrow>
                 (case populated of
                    None \<Rightarrow> (ReviewServerError500, Some p', None)
                  | Some ord \<Rightarrow>
                      (Reviewed200, Some p',
                       Some (if status ord = Processing then ord\<lparr>status := Shipped\<rparr> else ord))))
          else if action = ''reject'' then
            (case reject now adminId n p of
               (Some e, p') \<Rightarrow> (ReviewServerError500, Some p', populated)
             | (None, p') \<Rightarrow>
                 (case populated of
                    None \<Rightarrow> (ReviewServerError500, Some p', None)
                  | Some ord \<Rightarrow>
                      (Reviewed200, Some p',
                       Some (if status ord = Processing then ord\<lparr>status := Pending\<rparr> else ord))))
          else if action = ''requires_review'' then
            (case requiresReview now adminId n p of
               (Some e, p') \<Rightarrow> (ReviewServerError500, Some p', populated)
             | (None, p') \<Rightarrow> (Reviewed200, Some p', populated))
          else (InvalidAction400, Some p, populated))"

text \<open>Every operation of the code base that writes an existing delivery proof.\<close>

datatype proof_op =
    OpApprove time object_id js_string
  | OpReject time object_id js_string
  | OpRequiresReview time object_id js_string
  | OpReupload time string string "string option"

fun proofStep :: "proof_op \<Rightarrow> delivery_proof \<Rightarrow> delivery_proof" where
  "proofStep (OpApprove now adminId notes) p = snd (approve now adminId notes p)"
| "proofStep (OpReject now adminId notes) p = snd (reject now adminId notes p)"
| "proofStep (OpRequiresReview now adminId notes) p = snd (requiresReview now adminId notes p)"
| "proofStep (OpReupload now url fileId meta) p =
     (if reuploadWindowExpired now p then p else reupload now url fileId meta p)"

definition proofRun :: "proof_op list \<Rightarrow> delivery_proof \<Rightarrow> delivery_proof" where
  "proofRun ops p = foldl (\<lambda>p' op. proofStep op p') p ops"

text \<open>A proof uploaded at time 0, and the same proof approved one minute later.\<close>

definition exampleProof :: delivery_proof where
  "exampleProof = newProof 0 ''https://img/1.jpg'' ''file1'' None"

definition approvedProof :: delivery_proof where
  "approvedProof = snd (approve 60000 ''admin1'' [] exampleProof)"

text \<open>The example order once the example proof has been uploaded for it.\<close>

definition orderWithProof :: "rat order_doc" where
  "orderWithProof = exampleOrder\<lparr>deliveryProof := Some ''proof1''\<rparr>"

section \<open>Card number validation\<close>








subsection \<open>The checksum as the specification words it\<close>






section \<open>Sensitive data vault\<close>

text \<open>A \<open>Buffer\<close> is a list of bytes.\<close>

type_synonym byte = "8 word"

subsection \<open>Strings as UTF-8\<close>

text \<open>
  A string that is read as \<open>'utf8'\<close> is encoded code point by code point. A surrogate
  pair stands for the code point above U+FFFF that it encodes; a surrogate without its
  partner is replaced by U+FFFD, the code point 65533.
\<close>

definition isHighSurrogate :: "nat \<Rightarrow> bool" where
  "isHighSurrogate c \<longleftrightarrow> 55296 \<le> c \<and> c \<le> 56319"

definition isLowSurrogate :: "nat \<Rightarrow> bool" where
  "isLowSurrogate c \<longleftrightarrow> 56320 \<le> c \<and> c \<le> 57343"

fun codePoints :: "js_string \<Rightarrow> nat list" where
  "codePoints [] = []"
| "codePoints [c] = [if isHighSurrogate c \<or> isLowSurrogate c then 65533 else c]"
| "codePoints (c # d # rest) =
     (if isHighSurrogate c \<and> isLowSurrogate d
      then (65536 + (c - 55296) * 1024 + (d - 56320)) # codePoints rest
      else (if isHighSurrogate c \<or> isLowSurrogate c then 65533 else c) # codePoints (d # rest))"

definition encodeCodePoint :: "nat \<Rightarrow> nat list" where
  "encodeCodePoint cp =
     (if cp < 128 then [cp]
      else if cp < 2048 then [192 + cp div 64, 128 + cp mod 64]
      else if cp < 65536 then [224 + cp div 4096, 128 + cp div 64 mod 64, 128 + cp mod 64]
      else [240 + cp div 262144, 128 + cp div 4096 mod 64, 128 + cp div 64 mod 64,
            128 + cp mod 64])"

text \<open>\<open>Buffer.from(text, 'utf8')\<close>, and the \<open>'utf8'\<close> input of a cipher.\<close>

definition utf8Bytes :: "js_string \<Rightarrow> byte list" where
  "utf8Bytes text = map of_nat (concat (map encodeCodePoint (codePoints text)))"

text \<open>
  A string that encodes without loss: code units below 65536 in which every surrogate
  has its partner.
\<close>

fun wellFormed :: "js_string \<Rightarrow> bool" where
  "wellFormed [] = True"
| "wellFormed [c] = (c < 65536 \<and> \<not> isHighSurrogate c \<and> \<not> isLowSurrogate c)"
| "wellFormed (c # d # rest) =
     (if isHighSurrogate c then isLowSurrogate d \<and> wellFormed rest
      else c < 65536 \<and> \<not> isLowSurrogate c \<and> wellFormed (d # rest))"

text \<open>
  Decoding. \<open>decodeFirst\<close> reads the code point at the head of a byte sequence and fails
  on a sequence that is not well-formed UTF-8: a stray continuation byte, a truncated or
  overlong form, an encoded surrogate or a value above U+10FFFF.
\<close>

definition isContinuation :: "nat \<Rightarrow> bool" where
  "isContinuation b \<longleftrightarrow> 128 \<le> b \<and> b \<le> 191"

fun decodeFirst :: "nat list \<Rightarrow> (nat \<times> nat list) option" where
  "decodeFirst [] = None"
| "decodeFirst (b # bs) =
     (if b < 128 then Some (b, bs)
      else if 194 \<le> b \<and> b \<le> 223 then
        (case bs of
           b1 # rest \<Rightarrow>
             if isContinuation b1 then Some ((b - 192) * 64 + (b1 - 128), rest) else None
         | _ \<Rightarrow> None)
      else if 224 \<le> b \<and> b \<le> 239 then
        (case bs of
           b1 # b2 # rest \<Rightarrow>
             if (if b = 224 then 160 else 128) \<le> b1 \<and> b1 \<le> (if b = 237 then 159 else 191) \<and>
                isContinuation b2
             then Some ((b - 224) * 4096 + (b1 - 128) * 64 + (b2 - 128), rest) else None
         | _ \<Rightarrow> None)
      else if 240 \<le> b \<and> b \<le> 244 then
        (case bs of
           b1 # b2 # b3 # rest \<Rightarrow>
             if (if b = 240 then 144 else 128) \<le> b1 \<and> b1 \<le> (if b = 244 then 143 else 191) \<and>
                isContinuation b2 \<and> isContinuation b3
             then Some ((b - 240) * 262144 + (b1 - 128) * 4096 + (b2 - 128) * 64 + (b3 - 128), rest)
             else None
         | _ \<Rightarrow> None)
      else None)"

text \<open>The code units of a code point.\<close>

definition codeUnits :: "nat \<Rightarrow> js_string" where
  "codeUnits cp =
     (if cp < 65536 then [cp]
      else [55296 + (cp - 65536) div 1024, 56320 + (cp - 65536) mod 1024])"

text \<open>
  The string of a well-formed byte sequence, \<open>None\<close> for any other. Every step consumes
  at least one byte, so the length of the sequence is fuel enough.
\<close>

fun decodeAll :: "nat \<Rightarrow> nat list \<Rightarrow> js_string option" where
  "decodeAll fuel [] = Some []"
| "decodeAll 0 (b # bs) = None"
| "decodeAll (Suc fuel) (b # bs) =
     (case decodeFirst (b # bs) of
        None \<Rightarrow> None
      | Some (cp, rest) \<Rightarrow> map_option ((@) (codeUnits cp)) (decodeAll fuel rest))"

definition decodeUtf8 :: "byte list \<Rightarrow> js_string option" where
  "decodeUtf8 bytes = decodeAll (length bytes) (map unat bytes)"

subsection \<open>Hexadecimal strings\<close>

text \<open>
  An encrypted text consists of hexadecimal digits and a colon and is modelled with 8-bit
  characters.
\<close>

definition hexDigit :: "nat \<Rightarrow> char" where
  "hexDigit n = ''0123456789abcdef'' ! n"

text \<open>\<open>buffer.toString('hex')\<close>, and the \<open>'hex'\<close> output of a cipher.\<close>

definition hexEncode :: "byte list \<Rightarrow> string" where
  "hexEncode bytes = concat (map (\<lambda>b. [hexDigit (unat b div 16), hexDigit (unat b mod 16)]) bytes)"

text \<open>The value of a hexadecimal digit, in either case.\<close>

definition hexValue :: "char \<Rightarrow> nat option" where
  "hexValue c =
     (let n = (of_char c :: nat) in
      if 48 \<le> n \<and> n \<le> 57 then Some (n - 48)
      else if 97 \<le> n \<and> n \<le> 102 then Some (n - 87)
      else if 65 \<le> n \<and> n \<le> 70 then Some (n - 55)
      else None)"

text \<open>
  \<open>Buffer.from(s, 'hex')\<close>, and the \<open>'hex'\<close> input of a decipher: pairs of digits are
  decoded from the left, and decoding stops at the first pair that is not two
  hexadecimal digits or at a single trailing character.
\<close>

fun hexDecode :: "string \<Rightarrow> byte list" where
  "hexDecode (c # d # rest) =
     (case (hexValue c, hexValue d) of
        (Some hi, Some lo) \<Rightarrow> of_nat (16 * hi + lo) # hexDecode rest
      | _ \<Rightarrow> [])"
| "hexDecode _ = []"

text \<open>\<open>s.split(sep)\<close> for a separator of one character.\<close>

fun split :: "char \<Rightarrow> string \<Rightarrow> string list" where
  "split sep [] = [[]]"
| "split sep (c # cs) =
     (if c = sep then [] # split sep cs
      else (case split sep cs of
              [] \<Rightarrow> [[c]]
            | part # parts \<Rightarrow> (c # part) # parts))"

subsection \<open>AES-256-CBC\<close>

text \<open>
  Node's \<open>crypto\<close> module is not part of the code base. Its cipher \<open>'aes-256-cbc'\<close> is
  modelled by what the name fixes apart from AES itself: blocks of 16 bytes, PKCS#7
  padding and cipher block chaining. The block transformation of AES and its inverse
  enter as the parameters \<open>encryptBlock\<close> and \<open>decryptBlock\<close>, which take the key and
  a block, and so does \<open>decodeLossy\<close>, the string that a decipher returns for bytes
  that are not well-formed UTF-8.
\<close>

record crypto_lib =
  encryptBlock :: "byte list \<Rightarrow> byte list \<Rightarrow> byte list"
  decryptBlock :: "byte list \<Rightarrow> byte list \<Rightarrow> byte list"
  decodeLossy :: "byte list \<Rightarrow> js_string"

text \<open>The \<open>'utf8'\<close> output of a decipher.\<close>

definition utf8String :: "crypto_lib \<Rightarrow> byte list \<Rightarrow> js_string" where
  "utf8String lib bytes = (case decodeUtf8 bytes of Some s \<Rightarrow> s | None \<Rightarrow> decodeLossy lib bytes)"

text \<open>
  Padding adds between 1 and 16 bytes, each holding their number; removing it fails
  unless the last byte \<open>n\<close> is between 1 and 16 and the last \<open>n\<close> bytes all hold \<open>n\<close>.
\<close>

definition pkcs7Pad :: "byte list \<Rightarrow> byte list" where
  "pkcs7Pad bytes =
     bytes @ replicate (16 - length bytes mod 16) (of_nat (16 - length bytes mod 16))"

definition pkcs7Unpad :: "byte list \<Rightarrow> byte list option" where
  "pkcs7Unpad bytes =
     (if bytes = [] then None
      else let n = unat (last bytes) in
        if n = 0 \<or> 16 < n \<or> length bytes < n \<or>
           drop (length bytes - n) bytes \<noteq> replicate n (last bytes)
        then None
        else Some (take (length bytes - n) bytes))"

text \<open>The blocks of a byte sequence whose length is a multiple of 16.\<close>

definition blocksOf :: "byte list \<Rightarrow> byte list list" where
  "blocksOf bytes = map (\<lambda>i. take 16 (drop (16 * i) bytes)) [0..<length bytes div 16]"

definition xorBytes :: "byte list \<Rightarrow> byte list \<Rightarrow> byte list" where
  "xorBytes a b = map (\<lambda>(x, y). x XOR y) (zip a b)"

text \<open>
  Chaining: a block is combined with the previous ciphertext block, the first one with
  the initialisation vector, before it is encrypted and after it is decrypted.
\<close>

fun cbcEncrypt :: "(byte list \<Rightarrow> byte list) \<Rightarrow> byte list \<Rightarrow> byte list list \<Rightarrow> byte list list" where
  "cbcEncrypt enc previous [] = []"
| "cbcEncrypt enc previous (block # blocks) =
     enc (xorBytes block previous) # cbcEncrypt enc (enc (xorBytes block previous)) blocks"

fun cbcDecrypt :: "(byte list \<Rightarrow> byte list) \<Rightarrow> byte list \<Rightarrow> byte list list \<Rightarrow> byte list list" where
  "cbcDecrypt dec previous [] = []"
| "cbcDecrypt dec previous (block # blocks) =
     xorBytes (dec block) previous # cbcDecrypt dec block blocks"

text \<open>
  What \<open>update\<close> and \<open>final\<close> of a cipher produce together, and the same for a
  decipher, \<open>None\<close> when \<open>final\<close> throws: on input that is empty or not a whole number
  of blocks, and on bad padding.
\<close>

definition cipherRun :: "crypto_lib \<Rightarrow> byte list \<Rightarrow> byte list \<Rightarrow> byte list \<Rightarrow> byte list" where
  "cipherRun lib key iv bytes =
     concat (cbcEncrypt (encryptBlock lib key) iv (blocksOf (pkcs7Pad bytes)))"

definition decipherRun :: "crypto_lib \<Rightarrow> byte list \<Rightarrow> byte list \<Rightarrow> byte list \<Rightarrow> byte list option" where
  "decipherRun lib key iv bytes =
     (if bytes = [] \<or> length bytes mod 16 \<noteq> 0 then None
      else pkcs7Unpad (concat (cbcDecrypt (decryptBlock lib key) iv (blocksOf bytes))))"

subsection \<open>Encryption and decryption\<close>

definition IV_LENGTH :: nat where
  "IV_LENGTH = 16"

text \<open>Creating a cipher or a decipher throws unless the key has 32 bytes and the initialisation vector 16.\<close>

definition validCipherArgs :: "byte list \<Rightarrow> byte list \<Rightarrow> bool" where
  "validCipherArgs key iv \<longleftrightarrow> length key = 32 \<and> length iv = 16"

datatype vault_error = EncryptionFailed | DecryptionFailed

text \<open>
  \<open>encrypt\<close> with the configured key string \<open>encryptionKey\<close> and the bytes \<open>iv\<close>
  that \<open>crypto.randomBytes(IV_LENGTH)\<close> returned. The result is \<open>None\<close> for
  JavaScript's \<open>null\<close>.
\<close>

definition encrypt :: "crypto_lib \<Rightarrow> string \<Rightarrow> byte list \<Rightarrow> js_string \<Rightarrow> vault_error + string option" where
  "encrypt lib encryptionKey iv text =
     (if text = [] then Inr None
      else if \<not> validCipherArgs (hexDecode encryptionKey) iv then Inl EncryptionFailed
      else Inr (Some (hexEncode iv @ '':'' @
                      hexEncode (cipherRun lib (hexDecode encryptionKey) iv (utf8Bytes text)))))"

definition decrypt :: "crypto_lib \<Rightarrow> string \<Rightarrow> string option \<Rightarrow> vault_error + js_string option" where
  "decrypt lib encryptionKey encryptedText =
     (case encryptedText of
        None \<Rightarrow> Inr None
      | Some s \<Rightarrow>
          if s = [] then Inr None
          else (case split CHR '':'' s of
                  ivHex # encryptedData # others \<Rightarrow>
                    if ivHex = [] \<or> encryptedData = [] then Inl DecryptionFailed
                    else if \<not> validCipherArgs (hexDecode encryptionKey) (hexDecode ivHex)
                    then Inl DecryptionFailed
                    else (case decipherRun lib (hexDecode encryptionKey) (hexDecode ivHex)
                                 (hexDecode encryptedData) of
                            None \<Rightarrow> Inl DecryptionFailed
                          | Some bytes \<Rightarrow> Inr (Some (utf8String lib bytes)))
                | _ \<Rightarrow> Inl DecryptionFailed))"

text \<open>\<open>decrypt(encrypt(text))\<close>, an exception of \<open>encrypt\<close> propagating.\<close>

definition decryptEncrypted :: "crypto_lib \<Rightarrow> string \<Rightarrow> byte list \<Rightarrow> js_string \<Rightarrow> vault_error + js_string option" where
  "decryptEncrypted lib encryptionKey iv text =
     (case encrypt lib encryptionKey iv text of
        Inl e \<Rightarrow> Inl e
      | Inr encrypted \<Rightarrow> decrypt lib encryptionKey encrypted)"

text \<open>
  The byte whose hexadecimal form is that of \<open>b\<close> with the digit of value \<open>v\<close> in
  place of its first character when \<open>i\<close> is even and of its second when \<open>i\<close> is odd.
\<close>

definition replaceDigit :: "nat \<Rightarrow> nat \<Rightarrow> byte \<Rightarrow> byte" where
  "replaceDigit i v b =
     (if even i then of_nat (16 * v + unat b mod 16) else of_nat (16 * (unat b div 16) + v))"

text \<open>
  A stand-in for the block transformation with which the code around it can be run on
  concrete inputs: every byte of a block is shifted by the first byte of the key plus
  one.
\<close>

definition standInLib :: crypto_lib where
  "standInLib =
     \<lparr>encryptBlock = (\<lambda>key block. map (\<lambda>b. b + hd key + 1) block),
      decryptBlock = (\<lambda>key block. map (\<lambda>b. b - hd key - 1) block),
      decodeLossy = (\<lambda>bytes. [65533])\<rparr>"

definition exampleKey :: string where
  "exampleKey = ''000102030405060708090a0b0c0d0e0f101112131415161718191a1b1c1d1e1f''"

definition exampleIv :: "byte list" where
  "exampleIv = [171, 1, 2, 3, 4, 5, 6, 7, 8, 9, 10, 11, 12, 13, 14, 15]"

text \<open>
  A string of three characters, the second outside ASCII and the third outside the basic
  plane, and a string that is one surrogate without its partner.
\<close>

definition exampleText :: js_string where
  "exampleText = [104, 233, 55357, 56832]"

definition loneSurrogate :: js_string where
  "loneSurrogate = [55296]"

section \<open>Grouping line items by vendor\<close>

lemma addAmount_keys:
  "map fst (addAmount v t acc) = (if v \<in> fst ` set acc then map fst acc else map fst acc @ [v])"
  by (induction acc) (auto simp: rev_image_eqI)

lemma addAmount_map_of:
  "map_of (addAmount v t acc) k =
     (if k = v then Some ((case map_of acc v of None \<Rightarrow> 0 | Some a \<Rightarrow> a) + t) else map_of acc k)"
  by (induction acc) auto

lemma addAmount_distinct: "distinct (map fst acc) \<Longrightarrow> distinct (map fst (addAmount v t acc))"
  by (simp add: addAmount_keys)

lemma addAmount_key_set: "fst ` set (addAmount v t acc) = insert v (fst ` set acc)"
proof -
  have "set (map fst (addAmount v t acc)) = insert v (set (map fst acc))"
    unfolding addAmount_keys by auto
  then show ?thesis by simp
qed

lemma foldl_groupItem_distinct:
  "distinct (map fst acc) \<Longrightarrow> distinct (map fst (foldl groupItem acc its))"
  by (induction its arbitrary: acc) (simp_all add: groupItem_def addAmount_distinct)

lemma foldl_groupItem_keys:
  "fst ` set (foldl groupItem acc its) = fst ` set acc \<union> vendor ` set its"
  by (induction its arbitrary: acc) (simp_all add: groupItem_def addAmount_key_set)

lemma amountIn_addAmount:
  "amountIn (addAmount v t acc) k = (if k = v then amountIn acc v + t else amountIn acc k)"
  by (simp add: amountIn_def addAmount_map_of)

text \<open>The entry of a vendor grows by that vendor's item totals, one addition per item.\<close>

lemma foldl_groupItem_amountIn:
  "amountIn (foldl groupItem acc its) v =
     foldl (+) (amountIn acc v) (map itemTotal (filter (\<lambda>item. vendor item = v) its))"
proof (induction its arbitrary: acc)
  case Nil
  show ?case by simp
next
  case (Cons i its)
  have "amountIn (groupItem acc i) v =
          (if vendor i = v then amountIn acc v + itemTotal i else amountIn acc v)"
    by (simp add: groupItem_def amountIn_addAmount itemTotal_def)
  then show ?case
    by (simp add: Cons)
qed

lemma map_of_amountIn:
  "map_of acc v = (if v \<in> fst ` set acc then Some (amountIn acc v) else None)"
  by (auto simp: amountIn_def map_of_eq_None_iff split: option.splits)

lemma vendorAmounts_distinct: "distinct (map fst (vendorAmounts its))"
  by (simp add: vendorAmounts_def foldl_groupItem_distinct)

lemma vendorAmounts_keys: "fst ` set (vendorAmounts its) = vendor ` set its"
  by (simp add: vendorAmounts_def foldl_groupItem_keys)

lemma vendorAmounts_map_of:
  "map_of (vendorAmounts its) v = (if v \<in> vendor ` set its then Some (shareOf v its) else None)"
proof -
  have "amountIn (vendorAmounts its) v = shareOf v its"
    unfolding vendorAmounts_def foldl_groupItem_amountIn shareOf_def
    by (simp add: amountIn_def)
  then show ?thesis
    by (simp add: map_of_amountIn[of "vendorAmounts its"] vendorAmounts_keys)
qed

section \<open>The escrow fan-outs\<close>

lemma releaseLoop_other: "v \<notin> fst ` set kvs \<Longrightarrow> releaseLoop now kvs st v = st v"
proof (induction kvs arbitrary: st)
  case Nil show ?case by simp
next
  case (Cons kv kvs)
  obtain k a where kv: "kv = (k, a)" by (cases kv)
  from Cons.prems kv have "v \<noteq> k" "v \<notin> fst ` set kvs" by auto
  then show ?case using Cons.IH kv by (simp split: option.splits)
qed

lemma releaseLoop_lookup:
  "distinct (map fst kvs) \<Longrightarrow>
   releaseLoop now kvs st v =
     (case map_of kvs v of
        None \<Rightarrow> st v
      | Some a \<Rightarrow> map_option (\<lambda>vb. saveBalance now vb (released a vb)) (st v))"
proof (induction kvs arbitrary: st)
  case Nil show ?case by simp
next
  case (Cons kv kvs)
  obtain k a where kv: "kv = (k, a)" by (cases kv)
  from Cons.prems kv have nk: "k \<notin> fst ` set kvs" and d: "distinct (map fst kvs)" by auto
  show ?case
  proof (cases "v = k")
    case True
    then have "map_of kvs v = None" using nk by (simp add: map_of_eq_None_iff)
    then show ?thesis using True kv nk
      by (cases "st k") (simp_all add: releaseLoop_other released_def)
  next
    case False
    then show ?thesis using kv Cons.IH[OF d]
      by (cases "st k") (simp_all split: option.splits)
  qed
qed



lemma releaseLoop_vendorAmounts:
  "releaseLoop now (vendorAmounts its) st v =
     (if v \<in> vendor ` set its
      then map_option (\<lambda>vb. saveBalance now vb (released (shareOf v its) vb)) (st v) else st v)"
  by (simp add: releaseLoop_lookup vendorAmounts_distinct vendorAmounts_map_of)


lemma orderVendors_set: "set (orderVendors its) = vendor ` set its"
  by (simp add: orderVendors_def)

lemma saveBalance_fields:
  "pendingBalance (saveBalance now vb doc) = pendingBalance doc"
  "availableBalance (saveBalance now vb doc) = availableBalance doc"
  "totalEarnings (saveBalance now vb doc) = totalEarnings doc"
  "totalPayouts (saveBalance now vb doc) = totalPayouts doc"
  "bankAccount (saveBalance now vb doc) = bankAccount doc"
  "lastPayout (saveBalance now vb doc) = lastPayout doc"
  "lastPayoutAmount (saveBalance now vb doc) = lastPayoutAmount doc"
  "minimumPayoutAmount (saveBalance now vb doc) = minimumPayoutAmount doc"
  by (simp_all add: saveBalance_def)

subsection \<open>Releasing a held escrow\<close>




subsection \<open>The escrow status only advances\<close>




text \<open>Saving an order changes no balance: the post-save hook finds the document not new.\<close>

lemma orderSave_balances: "snd (snd (orderSave now ord st)) = st"
  by (simp add: orderSave_def postSave_def Let_def)




lemma orderRun_snoc: "orderRun (ops @ [op]) s = orderStep op (orderRun ops s)"
  by (simp add: orderRun_def)






subsection \<open>Vendors without a balance document\<close>



subsection \<open>Pending credit at order creation\<close>

text \<open>
  C4, evaluated on the code. No save of an order changes a balance: the post-save hook
  credits only a document whose \<open>isNew\<close> flag is set, and by the time the hook runs the
  flag has been cleared. A new order with held escrow and completed payment, whose vendor
  A has a balance document and a share of 80.00, is saved with A's pending balance still
  0, where \<open>addToVendorPending\<close>, had the hook called it, would have made it 80.00. The
  order as the order route constructs it, without an escrow amount, is refused by the
  validators and credits nothing either.
\<close>

theorem orderSave_credits_nothing:
  "snd (snd (orderSave now ord st)) = st \<and>
   isNew newOrder \<and> validOrder newOrder \<and> status newOrder = Pending \<and>
   escrowStatus newOrder = Held \<and> paymentStatus newOrder = PaymentCompleted \<and>
   ''vendorA'' \<in> set (orderVendors (items newOrder)) \<and>
   shareOf ''vendorA'' (items newOrder) = 80 \<and>
   freshBalances ''vendorA'' = Some emptyBalance \<and>
   orderSave 1000 newOrder freshBalances = (None, exampleOrder, freshBalances) \<and>
   addToVendorPending 1000 newOrder freshBalances ''vendorA'' =
     Some (emptyBalance\<lparr>pendingBalance := 80, updatedAt := 1000\<rparr>) \<and>
   orderSave 1000 routeOrder freshBalances = (Some ValidationError, routeOrder, freshBalances)"
proof -
  have g: "snd (snd (orderSave now ord st)) = st"
    by (rule orderSave_balances)
  have a: "isNew newOrder \<and> validOrder newOrder \<and> status newOrder = Pending \<and>
     escrowStatus newOrder = Held \<and> paymentStatus newOrder = PaymentCompleted \<and>
     ''vendorA'' \<in> set (orderVendors (items newOrder)) \<and>
     shareOf ''vendorA'' (items newOrder) = 80 \<and>
     freshBalances ''vendorA'' = Some emptyBalance"
    by (simp add: newOrder_def exampleOrder_def exampleItems_def validOrder_def orderVendors_def
        shareOf_def itemTotal_def freshBalances_def)
  have b: "orderSave 1000 newOrder freshBalances = (None, exampleOrder, freshBalances)"
    by (simp add: orderSave_def validOrder_def preSaveEscrow_def postSave_def Let_def
        newOrder_def exampleOrder_def exampleItems_def)
  have c: "addToVendorPending 1000 newOrder freshBalances ''vendorA'' =
     Some (emptyBalance\<lparr>pendingBalance := 80, updatedAt := 1000\<rparr>)"
    by (simp add: addToVendorPending_def newOrder_def exampleOrder_def exampleItems_def
        vendorAmounts_def groupItem_def freshBalances_def saveBalance_def emptyBalance_def)
  have d: "orderSave 1000 routeOrder freshBalances = (Some ValidationError, routeOrder, freshBalances)"
    by (simp add: orderSave_def validOrder_def routeOrder_def exampleOrder_def)
  from g a b c d show ?thesis by simp
qed

subsection \<open>Shares and the escrow amount\<close>

text \<open>The lemmas of this subsection compute in exact arithmetic.\<close>

lemma foldl_plus_sum_list: "foldl (+) a xs = a + sum_list (xs :: ('n::monoid_add) list)"
  by (induction xs arbitrary: a) (simp_all add: add.assoc)

lemma shareOf_sum_list:
  "shareOf v its = sum_list (map itemTotal (filter (\<lambda>item. vendor item = v) (its :: ('n::linordered_idom) order_item list)))"
  by (simp add: shareOf_def foldl_plus_sum_list)

lemma itemsTotal_sum_list:
  "itemsTotal its = sum_list (map itemTotal (its :: ('n::linordered_idom) order_item list))"
  by (simp add: itemsTotal_def foldl_plus_sum_list)

lemma addAmount_sum:
  "sum_list (map snd (addAmount v t acc)) = sum_list (map snd acc) + (t :: 'n::linordered_idom)"
  by (induction acc) auto

lemma foldl_groupItem_sum:
  "sum_list (map snd (foldl groupItem acc its)) =
     sum_list (map snd acc) + itemsTotal (its :: ('n::linordered_idom) order_item list)"
  by (induction its arbitrary: acc)
    (simp_all add: groupItem_def addAmount_sum itemsTotal_sum_list itemTotal_def)

lemma vendorAmounts_sum:
  "sum_list (map snd (vendorAmounts its)) = itemsTotal (its :: ('n::linordered_idom) order_item list)"
  by (simp add: vendorAmounts_def foldl_groupItem_sum)

lemma vendorAmounts_snd:
  "map snd (vendorAmounts its) = map (\<lambda>v. shareOf v its) (map fst (vendorAmounts its))"
proof -
  have "\<forall>kv\<in>set (vendorAmounts its). snd kv = shareOf (fst kv) its"
  proof
    fix kv assume kv: "kv \<in> set (vendorAmounts its)"
    then have "map_of (vendorAmounts its) (fst kv) = Some (snd kv)"
      using map_of_eq_Some_iff [OF vendorAmounts_distinct, of its "fst kv" "snd kv"] by simp
    then show "snd kv = shareOf (fst kv) its"
      by (simp add: vendorAmounts_map_of split: if_splits)
  qed
  then show ?thesis by simp
qed

lemma shares_sum:
  "sum_list (map (\<lambda>v. shareOf v its) (orderVendors its)) =
     itemsTotal (its :: ('n::linordered_idom) order_item list)"
proof -
  have "itemsTotal its = sum_list (map (\<lambda>v. shareOf v its) (map fst (vendorAmounts its)))"
    using vendorAmounts_sum [of its] vendorAmounts_snd [of its] by simp
  also have "\<dots> = sum (\<lambda>v. shareOf v its) (set (map fst (vendorAmounts its)))"
    by (rule sum_list_distinct_conv_sum_set [OF vendorAmounts_distinct])
  also have "set (map fst (vendorAmounts its)) = set (orderVendors its)"
    by (simp add: vendorAmounts_keys orderVendors_set)
  also have "sum (\<lambda>v. shareOf v its) (set (orderVendors its)) =
             sum_list (map (\<lambda>v. shareOf v its) (orderVendors its))"
    by (rule sum_list_distinct_conv_sum_set [symmetric]) (simp add: orderVendors_def)
  finally show ?thesis by simp
qed

lemma shareOf_nonneg:
  assumes "validOrder (ord :: ('n::linordered_idom) order_doc)"
  shows "0 \<le> shareOf v (items ord)"
  unfolding shareOf_sum_list
  by (rule sum_list_nonneg) (use assms in \<open>auto simp: itemTotal_def validOrder_def list_all_iff\<close>)

text \<open>What a release adds to the two pools of a vendor is at most the vendor's share.\<close>

lemma heldFor_releaseLoop:
  fixes its :: "('n::linordered_idom) order_item list"
  assumes "0 \<le> shareOf v its" and "\<forall>vb. st v = Some vb \<longrightarrow> 0 \<le> pendingBalance vb"
  shows "heldFor (releaseLoop t (vendorAmounts its) st) v - heldFor st v \<le> shareOf v its"
  using assms
  by (cases "st v")
    (auto simp: releaseLoop_vendorAmounts heldFor_def released_def saveBalance_fields)

text \<open>
  A step through an entry point keeps the line items, and either keeps the balances and
  the escrow status or is the one release of a held escrow.
\<close>

lemma entryPoint_step:
  assumes "entryPoint op"
  shows "items (fst (orderStep op (ord, st))) = items ord \<and>
         ((snd (orderStep op (ord, st)) = st \<and>
           escrowStatus (fst (orderStep op (ord, st))) = escrowStatus ord) \<or>
          (escrowStatus ord = Held \<and> escrowStatus (fst (orderStep op (ord, st))) \<noteq> Held \<and>
           (\<exists>t. snd (orderStep op (ord, st)) = releaseLoop t (vendorAmounts (items ord)) st)))"
proof (cases op)
  case (OpUpdateStatus s)
  then show ?thesis by (simp add: updateStatus_def)
next
  case (OpAddTracking n u)
  then show ?thesis by (simp add: addTracking_def)
next
  case (OpReleaseEscrow t)
  then show ?thesis by (auto simp: releaseEscrow_def)
next
  case (OpAddToVendorPending t)
  then show ?thesis using assms by simp
next
  case OpPreSave
  then show ?thesis using assms by simp
next
  case (OpPostSave t)
  then show ?thesis using assms by simp
next
  case (OpSave t)
  then show ?thesis by (simp add: orderSave_def preSaveEscrow_def postSave_def Let_def)
next
  case (OpAdminReleaseEscrow t)
  then show ?thesis by (auto simp: adminReleaseEscrow_def releaseEscrow_def)
next
  case (OpAdminUpdateStatus t s)
  then show ?thesis by (auto simp: adminUpdateStatus_def releaseEscrow_def Let_def)
qed

lemma entryPoint_run:
  assumes "list_all entryPoint ops"
  shows "items (fst (orderRun ops (ord, st))) = items ord \<and>
         ((snd (orderRun ops (ord, st)) = st \<and>
           escrowStatus (fst (orderRun ops (ord, st))) = escrowStatus ord) \<or>
          (escrowStatus (fst (orderRun ops (ord, st))) \<noteq> Held \<and>
           (\<exists>t. snd (orderRun ops (ord, st)) = releaseLoop t (vendorAmounts (items ord)) st)))"
  using assms
proof (induction ops rule: rev_induct)
  case Nil
  show ?case by (simp add: orderRun_def)
next
  case (snoc op ops)
  define s where "s = orderRun ops (ord, st)"
  have e: "entryPoint op" and l: "list_all entryPoint ops"
    using snoc.prems by simp_all
  have ih: "items (fst s) = items ord \<and>
         ((snd s = st \<and> escrowStatus (fst s) = escrowStatus ord) \<or>
          (escrowStatus (fst s) \<noteq> Held \<and>
           (\<exists>t. snd s = releaseLoop t (vendorAmounts (items ord)) st)))"
    using snoc.IH [OF l] by (simp add: s_def)
  have st: "items (fst (orderStep op s)) = items (fst s) \<and>
         ((snd (orderStep op s) = snd s \<and>
           escrowStatus (fst (orderStep op s)) = escrowStatus (fst s)) \<or>
          (escrowStatus (fst s) = Held \<and> escrowStatus (fst (orderStep op s)) \<noteq> Held \<and>
           (\<exists>t. snd (orderStep op s) = releaseLoop t (vendorAmounts (items (fst s))) (snd s))))"
    using entryPoint_step [OF e, of "fst s" "snd s"] by simp
  have "orderRun (ops @ [op]) (ord, st) = orderStep op s"
    by (simp add: orderRun_snoc s_def)
  then show ?case
    using ih st by auto
qed

lemma sum_list_zero_terms: "sum_list (map (\<lambda>v. f v - f v) vs) = (0 :: 'n::linordered_idom)"
  by (induction vs) simp_all

text \<open>
  C2, as the code has it and in exact arithmetic. The per-vendor shares computed by
  \<open>releaseEscrow\<close> and \<open>addToVendorPending\<close> add up to the sum of price times quantity
  over all line items. For an order that passes the validators of the schema and balances
  whose pending amounts are not negative, what the vendors of the order gain in pending
  plus available balance over any sequence of saves, status updates, tracking updates,
  releases and admin requests never exceeds that sum, and so never exceeds
  \<open>escrowAmount\<close> when \<open>escrowAmount\<close> is at least that sum.
\<close>

theorem vendor_shares_sum_to_items_total:
  fixes ord :: "('n::linordered_idom) order_doc"
  assumes "validOrder ord"
    and "\<forall>v vb. st v = Some vb \<longrightarrow> 0 \<le> pendingBalance vb"
    and "list_all entryPoint ops"
  shows "sum_list (map snd (vendorAmounts (items ord))) = itemsTotal (items ord) \<and>
         sum_list (map (\<lambda>v. shareOf v (items ord)) (orderVendors (items ord))) = itemsTotal (items ord) \<and>
         itemsTotal (items ord) = sum_list (map itemTotal (items ord)) \<and>
         creditedToOrder (items ord) st (snd (orderRun ops (ord, st))) \<le> itemsTotal (items ord) \<and>
         (\<forall>e. escrowAmount ord = Some e \<and> itemsTotal (items ord) \<le> e \<longrightarrow>
            creditedToOrder (items ord) st (snd (orderRun ops (ord, st))) \<le> e)"
proof -
  let ?its = "items ord"
  let ?st' = "snd (orderRun ops (ord, st))"
  have nn: "\<And>v. 0 \<le> shareOf v ?its"
    using shareOf_nonneg [OF assms(1)] .
  have tot: "0 \<le> itemsTotal ?its"
    unfolding shares_sum [of ?its, symmetric]
    by (rule sum_list_nonneg) (use nn in auto)
  have c: "creditedToOrder ?its st ?st' \<le> itemsTotal ?its"
  proof -
    from entryPoint_run [OF assms(3), of ord st]
    consider "?st' = st" | t where "?st' = releaseLoop t (vendorAmounts ?its) st"
      by blast
    then show ?thesis
    proof cases
      case 1
      then show ?thesis
        using tot by (simp add: creditedToOrder_def foldl_plus_sum_list sum_list_zero_terms)
    next
      case 2
      have "\<forall>v\<in>set (orderVendors ?its). heldFor ?st' v - heldFor st v \<le> shareOf v ?its"
      proof
        fix v assume "v \<in> set (orderVendors ?its)"
        have "\<forall>vb. st v = Some vb \<longrightarrow> 0 \<le> pendingBalance vb"
          using assms(2) by blast
        from heldFor_releaseLoop [where v = v and its = "items ord" and st = st and t = t] nn [of v] this
        show "heldFor ?st' v - heldFor st v \<le> shareOf v ?its"
          by (simp add: 2)
      qed
      then have "sum_list (map (\<lambda>v. heldFor ?st' v - heldFor st v) (orderVendors ?its))
                   \<le> sum_list (map (\<lambda>v. shareOf v ?its) (orderVendors ?its))"
        by (intro sum_list_mono) simp
      then show ?thesis
        by (simp add: creditedToOrder_def foldl_plus_sum_list shares_sum)
    qed
  qed
  show ?thesis
    using c shares_sum [of ?its] vendorAmounts_sum [of ?its] itemsTotal_sum_list [of ?its]
    by auto
qed

text \<open>
  The example order, saved, marked delivered by an admin and released once more: vendors
  A and B hold 15.00 more than before, of 135.00 in line items and an escrow amount of
  150.00.
\<close>

theorem vendor_shares_sum_to_items_total_witness:
  "validOrder exampleOrder \<and>
   list_all entryPoint [OpSave 500, OpAdminUpdateStatus 1000 Delivered, OpReleaseEscrow 2000] \<and>
   escrowAmount exampleOrder = Some 150 \<and>
   itemsTotal (items exampleOrder) = 135 \<and>
   sum_list (map snd (vendorAmounts (items exampleOrder))) = 135 \<and>
   sum_list (map (\<lambda>v. shareOf v (items exampleOrder)) (orderVendors (items exampleOrder))) = 135 \<and>
   creditedToOrder (items exampleOrder) exampleBalances
     (snd (orderRun [OpSave 500, OpAdminUpdateStatus 1000 Delivered, OpReleaseEscrow 2000]
        (exampleOrder, exampleBalances))) = 15 \<and>
   creditedToOrder (items exampleOrder) exampleBalances
     (snd (orderRun [OpSave 500, OpAdminUpdateStatus 1000 Delivered, OpReleaseEscrow 2000]
        (exampleOrder, exampleBalances))) \<le> 135 \<and>
   creditedToOrder (items exampleOrder) exampleBalances
     (snd (orderRun [OpSave 500, OpAdminUpdateStatus 1000 Delivered, OpReleaseEscrow 2000]
        (exampleOrder, exampleBalances))) \<le> 150"
proof -
  have i: "validOrder exampleOrder"
    by (simp add: validOrder_def exampleOrder_def exampleItems_def)
  have p: "\<forall>v vb. exampleBalances v = Some vb \<longrightarrow> 0 \<le> pendingBalance vb"
    by (simp add: exampleBalances_def emptyBalance_def)
  have l: "list_all entryPoint [OpSave 500, OpAdminUpdateStatus 1000 Delivered, OpReleaseEscrow 2000]"
    by simp
  have e: "escrowAmount exampleOrder = Some 150"
    by (simp add: exampleOrder_def)
  have t: "itemsTotal (items exampleOrder) = 135"
    by (simp add: itemsTotal_def itemTotal_def exampleOrder_def exampleItems_def)
  have c: "creditedToOrder (items exampleOrder) exampleBalances
     (snd (orderRun [OpSave 500, OpAdminUpdateStatus 1000 Delivered, OpReleaseEscrow 2000]
        (exampleOrder, exampleBalances))) = 15"
    by (simp add: orderRun_def orderSave_def validOrder_def preSaveEscrow_def postSave_def
        adminUpdateStatus_def releaseEscrow_def vendorAmounts_def groupItem_def
        creditedToOrder_def heldFor_def orderVendors_def exampleOrder_def exampleItems_def
        exampleBalances_def emptyBalance_def saveBalance_def Let_def)
  show ?thesis
    using i l e t c vendor_shares_sum_to_items_total [OF i p l]
    by simp
qed

text \<open>
  The example order passes the validators with an escrow amount of 150.00, its total,
  while the shares of its vendors add up to 135.00. The same goods under a total and
  escrow amount of 100.00: releasing that escrow to the empty balance documents of
  vendors A and B credits them 120.00.
\<close>

theorem escrowAmount_not_sum_of_shares_counterexample:
  "validOrder exampleOrder \<and> escrowAmount exampleOrder = Some 150 \<and>
   total exampleOrder = 150 \<and>
   sum_list (map (\<lambda>v. shareOf v (items exampleOrder)) (orderVendors (items exampleOrder))) = 135 \<and>
   validOrder underpricedOrder \<and> escrowAmount underpricedOrder = Some 100 \<and>
   escrowStatus underpricedOrder = Held \<and>
   fst (releaseEscrow 1000 underpricedOrder freshBalances) = None \<and>
   creditedToOrder (items underpricedOrder) freshBalances
     (snd (snd (releaseEscrow 1000 underpricedOrder freshBalances))) = 120"
  by (simp add: validOrder_def underpricedOrder_def exampleOrder_def exampleItems_def
      orderVendors_def shareOf_def itemTotal_def releaseEscrow_def vendorAmounts_def
      groupItem_def creditedToOrder_def heldFor_def freshBalances_def saveBalance_def
      emptyBalance_def)

section \<open>Payouts\<close>

lemma payoutRoute_fails_below_minimum:
  assumes "vendorOfUser db userId = Some vendorId" and "balanceDocs db vendorId = Some vb"
    and "amountNumber lib amount = Some a" and "a < minimumPayoutAmount vb"
  shows "\<not> payoutSucceeded (fst (payoutRoute lib now role userId amount description db))"
    and "snd (payoutRoute lib now role userId amount description db) = db"
  using assms
  by (simp_all add: payoutRoute_def payoutSucceeded_def split: option.splits)

lemma payoutRoute_fails_above_available:
  assumes "vendorOfUser db userId = Some vendorId" and "balanceDocs db vendorId = Some vb"
    and "amountNumber lib amount = Some a" and "a > availableBalance vb"
  shows "\<not> payoutSucceeded (fst (payoutRoute lib now role userId amount description db))"
    and "snd (payoutRoute lib now role userId amount description db) = db"
  using assms
  by (simp_all add: payoutRoute_def payoutSucceeded_def split: option.splits)

lemma payoutRoute_insufficient:
  fixes a :: "'n::{numeral,minus,linorder}"
  assumes "vendorOfUser db userId = Some vendorId" and "balanceDocs db vendorId = Some vb"
    and "amountNumber lib amount = Some a"
    and "10 \<le> a" and "descriptionValid lib description" and "role = ''vendor''"
    and "bankAccount vb = Some bankId" and "bankAccounts db bankId = Some acct" and "isActive acct"
    and "minimumPayoutAmount vb \<le> a" and "a > availableBalance vb"
  shows "payoutRoute lib now role userId amount description db = (InsufficientAvailableBalance400, db)"
  using assms by (simp add: payoutRoute_def amountValid_def not_less)

lemma payoutRoute_success:
  fixes a :: "'n::{numeral,minus,linorder}"
  assumes "vendorOfUser db userId = Some vendorId" and "balanceDocs db vendorId = Some vb"
    and "10 \<le> a" and "descriptionValid lib description" and "role = ''vendor''"
    and "bankAccount vb = Some bankId" and "bankAccounts db bankId = Some acct" and "isActive acct"
    and "minimumPayoutAmount vb \<le> a" and "a \<le> availableBalance vb"
  shows "payoutRoute lib now role userId (NumberValue a) description db =
           (PayoutProcessed200 (NumberValue a),
            db\<lparr>balanceDocs := (balanceDocs db)(vendorId \<mapsto> vb\<lparr>
                  availableBalance := availableBalance vb - a,
                  totalPayouts := totalPayouts vb + a,
                  lastPayout := Some now,
                  lastPayoutAmount := a,
                  updatedAt := now\<rparr>)\<rparr>)"
  using assms
  by (simp add: payoutRoute_def processPayout_def amountValid_def amountNumber_def not_less)

text \<open>
  C5, as the code has it. For a user with a vendor profile and a balance document and an
  amount that stands for the number \<open>a\<close>, a payout request fails and writes nothing
  when \<open>a\<close> is below the vendor's \<open>minimumPayoutAmount\<close>, and likewise when it
  exceeds \<open>availableBalance\<close>; in the latter case the answer is the
  insufficient-balance error once every earlier check has passed, and \<open>processPayout\<close>
  itself throws its insufficient-balance error. When \<open>a\<close> is at least the validator's
  floor of 10.00, the description passes its validator, the caller is the owning vendor,
  the linked bank account exists and is active and
  \<open>minimumPayoutAmount \<le> a \<le> availableBalance\<close>, a request that carries the amount
  as a JSON number succeeds: \<open>availableBalance\<close> goes down and \<open>totalPayouts\<close> up by
  the amount, and \<open>lastPayout\<close> and \<open>lastPayoutAmount\<close> are set.
\<close>

theorem payout_request_checked_then_debited:
  fixes a :: "'n::{numeral,minus,linorder}"
  assumes "vendorOfUser db userId = Some vendorId" and "balanceDocs db vendorId = Some vb"
    and "amountNumber lib amount = Some a"
  shows "(a < minimumPayoutAmount vb \<or> a > availableBalance vb \<longrightarrow>
            \<not> payoutSucceeded (fst (payoutRoute lib now role userId amount description db)) \<and>
            snd (payoutRoute lib now role userId amount description db) = db) \<and>
         (a > availableBalance vb \<longrightarrow>
            processPayout lib now amount vb = (Some InsufficientBalance, vb)) \<and>
         (10 \<le> a \<and> descriptionValid lib description \<and> role = ''vendor'' \<and>
          bankAccount vb = Some bankId \<and> bankAccounts db bankId = Some acct \<and> isActive acct \<and>
          minimumPayoutAmount vb \<le> a \<longrightarrow>
            (a > availableBalance vb \<longrightarrow>
               payoutRoute lib now role userId amount description db =
                 (InsufficientAvailableBalance400, db)) \<and>
            (a \<le> availableBalance vb \<and> amount = NumberValue a \<longrightarrow>
               payoutRoute lib now role userId amount description db =
                 (PayoutProcessed200 amount,
                  db\<lparr>balanceDocs := (balanceDocs db)(vendorId \<mapsto> vb\<lparr>
                        availableBalance := availableBalance vb - a,
                        totalPayouts := totalPayouts vb + a,
                        lastPayout := Some now,
                        lastPayoutAmount := a,
                        updatedAt := now\<rparr>)\<rparr>)))"
proof -
  let ?R = "payoutRoute lib now role userId amount description db"
  have x: "a < minimumPayoutAmount vb \<or> a > availableBalance vb \<longrightarrow>
            \<not> payoutSucceeded (fst ?R) \<and> snd ?R = db"
    using payoutRoute_fails_below_minimum [OF assms] payoutRoute_fails_above_available [OF assms]
    by blast
  have y: "a > availableBalance vb \<longrightarrow>
            processPayout lib now amount vb = (Some InsufficientBalance, vb)"
    using assms(3) by (simp add: processPayout_def)
  have z: "10 \<le> a \<and> descriptionValid lib description \<and> role = ''vendor'' \<and>
          bankAccount vb = Some bankId \<and> bankAccounts db bankId = Some acct \<and> isActive acct \<and>
          minimumPayoutAmount vb \<le> a \<longrightarrow>
            (a > availableBalance vb \<longrightarrow> ?R = (InsufficientAvailableBalance400, db)) \<and>
            (a \<le> availableBalance vb \<and> amount = NumberValue a \<longrightarrow>
               ?R = (PayoutProcessed200 amount,
                  db\<lparr>balanceDocs := (balanceDocs db)(vendorId \<mapsto> vb\<lparr>
                        availableBalance := availableBalance vb - a,
                        totalPayouts := totalPayouts vb + a,
                        lastPayout := Some now,
                        lastPayoutAmount := a,
                        updatedAt := now\<rparr>)\<rparr>))"
    using payoutRoute_insufficient [OF assms, where role = role and bankId = bankId
          and acct = acct and now = now and description = description]
      payoutRoute_success [OF assms(1,2), where a = a and role = role and bankId = bankId
          and acct = acct and now = now and description = description and lib = lib]
    by blast
  from x y z show ?thesis by blast
qed

text \<open>
  Minimum 10.00: a request for 5.00 is refused; with 10.00 available a request for 10.00
  is paid and leaves 0.00, and a request for 20.00 is refused for insufficient balance.
\<close>

theorem payout_request_checked_then_debited_witness:
  "\<not> payoutSucceeded (fst (payoutRoute exampleLib 7000 ''vendor'' ''user1'' (NumberValue 5) None (exampleDb 10 10))) \<and>
   snd (payoutRoute exampleLib 7000 ''vendor'' ''user1'' (NumberValue 5) None (exampleDb 10 10)) = exampleDb 10 10 \<and>
   processPayout exampleLib 7000 (NumberValue 20) (emptyBalance\<lparr>minimumPayoutAmount := 10, availableBalance := 10\<rparr>) =
     (Some InsufficientBalance, emptyBalance\<lparr>minimumPayoutAmount := 10, availableBalance := 10\<rparr>) \<and>
   payoutRoute exampleLib 7000 ''vendor'' ''user1'' (NumberValue 20) None (exampleDb 10 10) =
     (InsufficientAvailableBalance400, exampleDb 10 10) \<and>
   fst (payoutRoute exampleLib 7000 ''vendor'' ''user1'' (NumberValue 10) None (exampleDb 10 10)) =
     PayoutProcessed200 (NumberValue 10) \<and>
   balanceDocs (snd (payoutRoute exampleLib 7000 ''vendor'' ''user1'' (NumberValue 10) None (exampleDb 10 10))) ''vendorA'' =
     Some (emptyBalance\<lparr>availableBalance := 0, totalPayouts := 10, lastPayout := Some 7000,
             lastPayoutAmount := 10, updatedAt := 7000\<rparr>)"
proof -
  let ?vb = "emptyBalance\<lparr>minimumPayoutAmount := 10, availableBalance := 10\<rparr>"
  have v: "vendorOfUser (exampleDb 10 10) ''user1'' = Some ''vendorA''"
    and d: "balanceDocs (exampleDb 10 10) ''vendorA'' = Some ?vb"
    by (simp_all add: exampleDb_def)
  have n: "\<And>x. amountNumber exampleLib (NumberValue x) = Some x"
    by (simp add: amountNumber_def)
  have k: "bankAccount ?vb = Some ''bank1''"
    "bankAccounts (exampleDb 10 10) ''bank1'' = Some \<lparr>isActive = True\<rparr>"
    "minimumPayoutAmount ?vb = 10" "availableBalance ?vb = 10"
    "descriptionValid exampleLib None"
    by (simp_all add: exampleDb_def emptyBalance_def descriptionValid_def)
  show ?thesis
    using k
      payout_request_checked_then_debited [OF v d n [of 5], where now = 7000
        and role = "''vendor''" and bankId = "''bank1''" and acct = "\<lparr>isActive = True\<rparr>"
        and description = None]
      payout_request_checked_then_debited [OF v d n [of 20], where now = 7000
        and role = "''vendor''" and bankId = "''bank1''" and acct = "\<lparr>isActive = True\<rparr>"
        and description = None]
      payout_request_checked_then_debited [OF v d n [of 10], where now = 7000
        and role = "''vendor''" and bankId = "''bank1''" and acct = "\<lparr>isActive = True\<rparr>"
        and description = None]
    by (simp add: emptyBalance_def)
qed

text \<open>
  A vendor whose minimum is 5.00 and who has 100.00 available asks for 7.00: the
  validator's floor of 10.00 refuses the request and the balance is untouched. The same
  vendor with 5.00 of earlier payouts asks for 10.00 with the amount sent as the string
  \<open>'10'\<close>: the request is paid, 10.00 leaves the available balance, and
  \<open>totalPayouts\<close> becomes 510.00.
\<close>

theorem payout_below_validator_floor_counterexample:
  "minimumPayoutAmount (emptyBalance\<lparr>minimumPayoutAmount := 5, availableBalance := 100\<rparr>) \<le> 7 \<and>
   7 \<le> availableBalance (emptyBalance\<lparr>minimumPayoutAmount := 5, availableBalance := 100\<rparr>) \<and>
   payoutRoute exampleLib 7000 ''vendor'' ''user1'' (NumberValue 7) None (exampleDb 5 100) =
     (ValidationFailed400, exampleDb 5 100) \<and>
   amountNumber exampleLib (StringValue (js ''10'')) = Some 10 \<and>
   processPayout exampleLib 7000 (StringValue (js ''10''))
       (emptyBalance\<lparr>minimumPayoutAmount := 5, availableBalance := 100, totalPayouts := 5\<rparr>) =
     (None, emptyBalance\<lparr>minimumPayoutAmount := 5, availableBalance := 90, totalPayouts := 510,
              lastPayout := Some 7000, lastPayoutAmount := 10, updatedAt := 7000\<rparr>)"
  by (simp add: payoutRoute_def amountValid_def amountNumber_def descriptionValid_def
      processPayout_def exampleLib_def emptyBalance_def)

section \<open>Delivery proof review and re-upload\<close>

lemma proofSave_canReupload: "canReupload (proofSave stored doc) = canReupload doc"
  by (simp add: proofSave_def)

lemma reviewSave_canReupload:
  "\<not> canReupload stored \<Longrightarrow> \<not> canReupload doc \<Longrightarrow> \<not> canReupload (snd (reviewSave stored doc))"
  by (simp add: reviewSave_def proofSave_canReupload)

lemma proofStep_canReupload: "\<not> canReupload p \<Longrightarrow> \<not> canReupload (proofStep op p)"
  by (cases op)
     (simp_all add: approve_def reject_def requiresReview_def reupload_def proofSave_canReupload
        reviewSave_canReupload)

lemma proofRun_snoc: "proofRun (ops @ [op]) p = proofStep op (proofRun ops p)"
  by (simp add: proofRun_def)

lemma proofRun_canReupload: "\<not> canReupload p \<Longrightarrow> \<not> canReupload (proofRun ops p)"
proof (induction ops rule: rev_induct)
  case Nil
  then show ?case by (simp add: proofRun_def)
next
  case (snoc op ops)
  then show ?case by (simp add: proofRun_snoc proofStep_canReupload)
qed

text \<open>
  An approval whose notes, trimmed, have at most 1000 code units is stored: it sets the
  review fields, stores the notes trimmed and clears \<open>canReupload\<close>, which no sequence
  of later proof operations sets again; the route then moves an order in processing to
  shipped and leaves an order in any other status alone.
\<close>

lemma approve_stored:
  assumes "length (trim n) \<le> 1000"
  shows "fst (approve now adminId n p) = None"
    and "verificationStatus (snd (approve now adminId n p)) = Approved"
    and "reviewedBy (snd (approve now adminId n p)) = Some adminId"
    and "reviewedAt (snd (approve now adminId n p)) = Some now"
    and "adminNotes (snd (approve now adminId n p)) = (if n \<noteq> [] then Some (trim n) else adminNotes p)"
    and "canReupload (snd (approve now adminId n p)) = False"
    and "canReupload (proofRun ops (snd (approve now adminId n p))) = False"
    and "reviewRoute now adminId ''approve'' (Some n) (Some p) (Some ord) =
           (Reviewed200, Some (snd (approve now adminId n p)),
            Some (if status ord = Processing then ord\<lparr>status := Shipped\<rparr> else ord))"
proof -
  show a: "fst (approve now adminId n p) = None"
    using assms by (simp add: approve_def reviewSave_def)
  show "verificationStatus (snd (approve now adminId n p)) = Approved"
    "reviewedBy (snd (approve now adminId n p)) = Some adminId"
    "reviewedAt (snd (approve now adminId n p)) = Some now"
    "adminNotes (snd (approve now adminId n p)) = (if n \<noteq> [] then Some (trim n) else adminNotes p)"
    using assms by (simp_all add: approve_def reviewSave_def proofSave_def)
  show c: "canReupload (snd (approve now adminId n p)) = False"
    using assms by (simp add: approve_def reviewSave_def proofSave_def)
  show "canReupload (proofRun ops (snd (approve now adminId n p))) = False"
    using proofRun_canReupload [of "snd (approve now adminId n p)" ops] c by simp
  show "reviewRoute now adminId ''approve'' (Some n) (Some p) (Some ord) =
           (Reviewed200, Some (snd (approve now adminId n p)),
            Some (if status ord = Processing then ord\<lparr>status := Shipped\<rparr> else ord))"
    using a by (cases "approve now adminId n p") (simp add: reviewRoute_def)
qed

text \<open>Notes that are longer make the approval fail: the route answers 500 and the proof stays as it was.\<close>

lemma approve_refused:
  assumes "1000 < length (trim n)" and "adminNotes p \<noteq> Some (trim n)"
  shows "approve now adminId n p = (Some ValidationError, p)"
    and "reviewRoute now adminId ''approve'' (Some n) (Some p) (Some ord) =
           (ReviewServerError500, Some p, Some ord)"
proof -
  have "n \<noteq> []"
    using assms(1) by (auto simp: trim_def)
  then show a: "approve now adminId n p = (Some ValidationError, p)"
    using assms by (simp add: approve_def reviewSave_def)
  then show "reviewRoute now adminId ''approve'' (Some n) (Some p) (Some ord) =
           (ReviewServerError500, Some p, Some ord)"
    by (simp add: reviewRoute_def)
qed

text \<open>
  C7, evaluated on the code. The example order is pending and the upload route, which
  accepts a proof only for a pending order, stores the example proof and leaves the order
  pending. The admin then approves the proof: it is stored approved with the reviewer
  and the review time and cannot be re-uploaded, and the order is still pending.
\<close>

theorem approve_review_leaves_pending_order:
  "status exampleOrder = Pending \<and>
   deliveryProofRoute 0 (Some ''vendorA'') ''https://img/1.jpg'' ''file1'' None ''proof1''
       (Some exampleOrder) None =
     (ProofUploaded200, Some orderWithProof, Some exampleProof) \<and>
   status orderWithProof = Pending \<and>
   reviewRoute 60000 ''admin1'' ''approve'' None (Some exampleProof) (Some orderWithProof) =
     (Reviewed200, Some approvedProof, Some orderWithProof) \<and>
   verificationStatus approvedProof = Approved \<and>
   reviewedBy approvedProof = Some ''admin1'' \<and>
   reviewedAt approvedProof = Some 60000 \<and>
   canReupload approvedProof = False"
  by (simp add: reviewRoute_def deliveryProofRoute_def approvedProof_def approve_def
      reviewSave_def proofSave_def exampleProof_def newProof_def orderWithProof_def
      exampleOrder_def exampleItems_def)

lemma reuploadWindowExpired_iff:
  "reuploadWindowExpired now p \<longleftrightarrow> now - uploadedAt p > 15 * 60 * 1000"
proof -
  have "rat_of_int (now - uploadedAt p) / (1000 * 60) > 15 \<longleftrightarrow>
        rat_of_int (now - uploadedAt p) > rat_of_int (15 * 60 * 1000)"
    by (simp add: field_simps)
  also have "\<dots> \<longleftrightarrow> now - uploadedAt p > 15 * 60 * 1000"
    by (simp only: of_int_less_iff)
  finally show ?thesis by (simp add: reuploadWindowExpired_def)
qed

text \<open>
  C6 at the input where the code departs from it. The example proof is uploaded at time
  0 and approved after one minute, so \<open>canReupload\<close> is false and the virtual
  \<open>canStillReupload\<close> is false at minute five; its order is still pending. The upload
  route nevertheless accepts a re-upload at minute five, overwrites the image and restarts
  the window. At exactly fifteen minutes after the upload of an unapproved proof the
  virtual is false as well while the route still accepts.
\<close>

theorem reupload_accepted_after_approval:
  "\<not> canReupload approvedProof \<and>
   \<not> canStillReupload 300000 approvedProof \<and>
   deliveryProofRoute 300000 (Some ''vendorA'') ''https://img/2.jpg'' ''file2'' None ''proof2''
       (Some exampleOrder) (Some approvedProof) =
     (ProofUpdated200, Some exampleOrder,
      Some (approvedProof\<lparr>imageUrl := ''https://img/2.jpg'', imageId := ''file2'',
              uploadedAt := 300000, reuploadExpiresAt := 1200000\<rparr>)) \<and>
   \<not> canStillReupload 900000 exampleProof \<and>
   fst (deliveryProofRoute 900000 (Some ''vendorA'') ''https://img/2.jpg'' ''file2'' None ''proof2''
         (Some exampleOrder) (Some exampleProof)) = ProofUpdated200"
  by (simp add: approvedProof_def exampleProof_def newProof_def approve_def reviewSave_def
      proofSave_def canStillReupload_def deliveryProofRoute_def reuploadWindowExpired_iff
      reupload_def exampleOrder_def exampleItems_def)

section \<open>Encryption round trip and altered ciphertexts\<close>

subsection \<open>UTF-8 encoding and decoding\<close>

text \<open>A code point that UTF-8 can encode: below 1114112 and not a surrogate.\<close>

text \<open>The base-64 digits of a code point, from which its bytes are made.\<close>

lemma base64_digits:
  fixes cp :: nat
  shows "cp = cp div 64 * 64 + cp mod 64"
    and "cp div 64 = cp div 4096 * 64 + cp div 64 mod 64"
    and "cp div 4096 = cp div 262144 * 64 + cp div 4096 mod 64"
    and "cp mod 64 < 64" and "cp div 64 mod 64 < 64" and "cp div 4096 mod 64 < 64"
proof -
  show "cp = cp div 64 * 64 + cp mod 64" by simp
  have a: "cp div 64 div 64 = cp div 4096" by simp
  show "cp div 64 = cp div 4096 * 64 + cp div 64 mod 64"
    by (simp only: a [symmetric] div_mult_mod_eq)
  have b: "cp div 4096 div 64 = cp div 262144" by simp
  show "cp div 4096 = cp div 262144 * 64 + cp div 4096 mod 64"
    by (simp only: b [symmetric] div_mult_mod_eq)
qed simp_all

lemma decodeFirst_encodeCodePoint:
  assumes "cp < 1114112" and "\<not> (55296 \<le> cp \<and> cp \<le> 57343)"
  shows "decodeFirst (encodeCodePoint cp @ rest) = Some (cp, rest)"
proof -
  define r0 where "r0 = cp mod 64"
  define q1 where "q1 = cp div 64"
  define r1 where "r1 = cp div 64 mod 64"
  define q2 where "q2 = cp div 4096"
  define r2 where "r2 = cp div 4096 mod 64"
  define q3 where "q3 = cp div 262144"
  have f: "cp = q1 * 64 + r0" "q1 = q2 * 64 + r1" "q2 = q3 * 64 + r2"
    "r0 < 64" "r1 < 64" "r2 < 64"
    using base64_digits [of cp] by (simp_all add: r0_def q1_def r1_def q2_def r2_def q3_def)
  have e: "encodeCodePoint cp =
     (if cp < 128 then [cp]
      else if cp < 2048 then [192 + q1, 128 + r0]
      else if cp < 65536 then [224 + q2, 128 + r1, 128 + r0]
      else [240 + q3, 128 + r2, 128 + r1, 128 + r0])"
    by (simp add: encodeCodePoint_def r0_def q1_def r1_def q2_def r2_def q3_def)
  consider (one) "cp < 128" | (two) "128 \<le> cp" "cp < 2048"
    | (three) "2048 \<le> cp" "cp < 65536" | (four) "65536 \<le> cp"
    by linarith
  then show ?thesis
  proof cases
    case one
    then show ?thesis by (simp add: e)
  next
    case two
    have a: "2 \<le> q1" "q1 \<le> 31" "q1 * 64 + r0 = cp"
      using two f by linarith+
    show ?thesis
      using two a f(4) by (simp add: e isContinuation_def)
  next
    case three
    have a: "q2 \<le> 15" "q2 = 0 \<longrightarrow> 32 \<le> r1" "q2 = 13 \<longrightarrow> r1 \<le> 31"
      "q2 * 4096 + r1 * 64 + r0 = cp"
      using three assms(2) f by linarith+
    show ?thesis
      using three a f(4,5) by (simp add: e isContinuation_def)
  next
    case four
    have a: "q3 \<le> 4" "q3 = 0 \<longrightarrow> 16 \<le> r2" "q3 = 4 \<longrightarrow> r2 \<le> 15"
      "q3 * 262144 + r2 * 4096 + r1 * 64 + r0 = cp"
      using four assms(1) f by linarith+
    show ?thesis
      using four a f(4,5,6) by (simp add: e isContinuation_def)
  qed
qed

lemma encodeCodePoint_bytes:
  assumes "cp < 1114112"
  shows "\<forall>b\<in>set (encodeCodePoint cp). b < 256"
proof -
  define r0 where "r0 = cp mod 64"
  define q1 where "q1 = cp div 64"
  define r1 where "r1 = cp div 64 mod 64"
  define q2 where "q2 = cp div 4096"
  define r2 where "r2 = cp div 4096 mod 64"
  define q3 where "q3 = cp div 262144"
  have f: "cp = q1 * 64 + r0" "q1 = q2 * 64 + r1" "q2 = q3 * 64 + r2"
    "r0 < 64" "r1 < 64" "r2 < 64"
    using base64_digits [of cp] by (simp_all add: r0_def q1_def r1_def q2_def r2_def q3_def)
  have e: "encodeCodePoint cp =
     (if cp < 128 then [cp]
      else if cp < 2048 then [192 + q1, 128 + r0]
      else if cp < 65536 then [224 + q2, 128 + r1, 128 + r0]
      else [240 + q3, 128 + r2, 128 + r1, 128 + r0])"
    by (simp add: encodeCodePoint_def r0_def q1_def r1_def q2_def r2_def q3_def)
  have "cp < 2048 \<longrightarrow> q1 < 32" "cp < 65536 \<longrightarrow> q2 < 16" "q3 < 5"
    using assms f by linarith+
  then show ?thesis
    using f(4,5,6) by (auto simp: e)
qed

lemma encodeCodePoint_nonempty: "encodeCodePoint cp \<noteq> []"
  by (simp add: encodeCodePoint_def)

lemma decodeAll_step:
  "bytes \<noteq> [] \<Longrightarrow> decodeAll (Suc fuel) bytes =
     (case decodeFirst bytes of
        None \<Rightarrow> None
      | Some (cp, rest) \<Rightarrow> map_option ((@) (codeUnits cp)) (decodeAll fuel rest))"
  by (cases bytes) simp_all

lemma decodeAll_encoded:
  assumes "\<forall>cp\<in>set cps. cp < 1114112 \<and> \<not> (55296 \<le> cp \<and> cp \<le> 57343)"
    and "length (concat (map encodeCodePoint cps)) \<le> fuel"
  shows "decodeAll fuel (concat (map encodeCodePoint cps)) = Some (concat (map codeUnits cps))"
  using assms
proof (induction cps arbitrary: fuel)
  case Nil
  show ?case by simp
next
  case (Cons cp cps)
  let ?rest = "concat (map encodeCodePoint cps)"
  have v: "cp < 1114112" "\<not> (55296 \<le> cp \<and> cp \<le> 57343)"
    using Cons.prems(1) by simp_all
  have ne: "encodeCodePoint cp @ ?rest \<noteq> []"
    by (simp add: encodeCodePoint_nonempty)
  have "Suc (length ?rest) \<le> length (encodeCodePoint cp @ ?rest)"
    using encodeCodePoint_nonempty [of cp] by (cases "encodeCodePoint cp") simp_all
  then have "Suc (length ?rest) \<le> fuel"
    using Cons.prems(2) by simp
  then obtain m where m: "fuel = Suc m" and le: "length ?rest \<le> m"
    by (cases fuel) auto
  have ih: "decodeAll m ?rest = Some (concat (map codeUnits cps))"
    using Cons.IH [OF _ le] Cons.prems(1) by simp
  show ?case
    by (simp add: m decodeAll_step [OF ne] decodeFirst_encodeCodePoint [OF v] ih)
qed

lemma codePoints_wellFormed:
  "wellFormed s \<Longrightarrow>
     (\<forall>cp\<in>set (codePoints s). cp < 1114112 \<and> \<not> (55296 \<le> cp \<and> cp \<le> 57343)) \<and>
     concat (map codeUnits (codePoints s)) = s"
proof (induction s rule: codePoints.induct)
  case 1
  show ?case by simp
next
  case (2 c)
  then show ?case
    by (auto simp: isHighSurrogate_def isLowSurrogate_def codeUnits_def)
next
  case (3 c d rest)
  show ?case
  proof (cases "isHighSurrogate c")
    case True
    then have d: "isLowSurrogate d" and w: "wellFormed rest"
      using "3.prems" by simp_all
    have ih: "(\<forall>cp\<in>set (codePoints rest). cp < 1114112 \<and> \<not> (55296 \<le> cp \<and> cp \<le> 57343)) \<and>
        concat (map codeUnits (codePoints rest)) = rest"
      using "3.IH"(1) True d w by simp
    define cp where "cp = 65536 + (c - 55296) * 1024 + (d - 56320)"
    have r: "55296 \<le> c" "c \<le> 56319" "56320 \<le> d" "d \<le> 57343"
      using True d by (simp_all add: isHighSurrogate_def isLowSurrogate_def)
    have b: "65536 \<le> cp" "cp < 1114112"
      using r by (simp_all add: cp_def)
    define hi where "hi = c - 55296"
    define lo where "lo = d - 56320"
    have lo: "lo < 1024"
      using r by (simp add: lo_def)
    have "cp - 65536 = hi * 1024 + lo"
      by (simp add: cp_def hi_def lo_def)
    then have q: "(cp - 65536) div 1024 = hi" "(cp - 65536) mod 1024 = lo"
      using lo by simp_all
    have u: "codeUnits cp = [c, d]"
      using b q r by (simp add: codeUnits_def hi_def lo_def)
    show ?thesis
      using True d ih b u by (simp add: cp_def)
  next
    case False
    then have c: "c < 65536" "\<not> isLowSurrogate c" and w: "wellFormed (d # rest)"
      using "3.prems" by simp_all
    have ih: "(\<forall>cp\<in>set (codePoints (d # rest)). cp < 1114112 \<and> \<not> (55296 \<le> cp \<and> cp \<le> 57343)) \<and>
        concat (map codeUnits (codePoints (d # rest))) = d # rest"
      using "3.IH"(2) False w by simp
    have s: "\<not> (55296 \<le> c \<and> c \<le> 57343)"
      using False c by (auto simp: isHighSurrogate_def isLowSurrogate_def)
    have u: "codeUnits c = [c]"
      using c by (simp add: codeUnits_def)
    show ?thesis
      using False c ih s u by simp
  qed
qed

lemma unat_of_nat_bytes:
  "\<forall>b\<in>set bs. b < 256 \<Longrightarrow> map unat (map of_nat bs :: byte list) = bs"
  by (induction bs) (simp_all add: unat_of_nat)

text \<open>A well-formed string is decoded from its bytes as it was.\<close>

lemma decodeUtf8_utf8Bytes:
  assumes "wellFormed text"
  shows "decodeUtf8 (utf8Bytes text) = Some text"
proof -
  let ?cps = "codePoints text"
  let ?bs = "concat (map encodeCodePoint ?cps)"
  have v: "\<forall>cp\<in>set ?cps. cp < 1114112 \<and> \<not> (55296 \<le> cp \<and> cp \<le> 57343)"
    and t: "concat (map codeUnits ?cps) = text"
    using codePoints_wellFormed [OF assms] by simp_all
  have "\<forall>b\<in>set ?bs. b < 256"
    using v encodeCodePoint_bytes by auto
  then have u: "map unat (utf8Bytes text) = ?bs"
    unfolding utf8Bytes_def by (rule unat_of_nat_bytes)
  have "decodeAll (length ?bs) ?bs = Some (concat (map codeUnits ?cps))"
    by (rule decodeAll_encoded [OF v]) simp
  then show ?thesis
    using t u by (simp add: decodeUtf8_def utf8Bytes_def)
qed

text \<open>The length of a byte sequence is fuel enough to decode it.\<close>

lemma decodeFirst_shorter: "decodeFirst bytes = Some (cp, rest) \<Longrightarrow> length rest < length bytes"
  by (cases bytes) (auto split: if_splits list.splits)

lemma decodeAll_fuel: "length bytes \<le> fuel \<Longrightarrow> decodeAll fuel bytes = decodeAll (length bytes) bytes"
proof (induction "length bytes" arbitrary: bytes fuel rule: less_induct)
  case less
  show ?case
  proof (cases bytes)
    case Nil
    then show ?thesis by simp
  next
    case (Cons b bs)
    then have ne: "bytes \<noteq> []" by simp
    obtain m where m: "fuel = Suc m" and le: "length bs \<le> m"
      using less.prems Cons by (cases fuel) auto
    have l: "length bytes = Suc (length bs)"
      using Cons by simp
    show ?thesis
    proof (cases "decodeFirst bytes")
      case None
      then show ?thesis
        by (simp add: m l decodeAll_step [OF ne])
    next
      case (Some r)
      obtain cp rest where r: "r = (cp, rest)" by (cases r)
      have s: "length rest < length bytes"
        using decodeFirst_shorter Some r by blast
      then have "length rest \<le> m" "length rest \<le> length bs"
        using le l by simp_all
      then have "decodeAll m rest = decodeAll (length rest) rest"
        "decodeAll (length bs) rest = decodeAll (length rest) rest"
        using less.hyps [OF s] by blast+
      then show ?thesis
        by (simp add: m l decodeAll_step [OF ne] Some r)
    qed
  qed
qed

subsection \<open>Padding, blocks and chaining\<close>

lemma pad_amount: "0 < 16 - n mod 16" "16 - n mod 16 \<le> 16" "(n + (16 - n mod 16)) mod 16 = (0 :: nat)"
proof -
  show "0 < 16 - n mod 16" by simp
  show "16 - n mod 16 \<le> 16" by simp
  define q where "q = n div 16"
  define r where "r = n mod 16"
  have "n = q * 16 + r" "r < 16"
    by (simp_all add: q_def r_def)
  then have "n + (16 - r) = (q + 1) * 16"
    by simp
  then have "(n + (16 - r)) mod 16 = 0"
    by (simp only: mod_mult_self2_is_0)
  then show "(n + (16 - n mod 16)) mod 16 = 0"
    by (simp only: r_def)
qed

lemma length_pkcs7Pad:
  "length (pkcs7Pad bytes) mod 16 = 0" "pkcs7Pad bytes \<noteq> []"
  "length (pkcs7Pad bytes) = length bytes + (16 - length bytes mod 16)"
  using pad_amount [of "length bytes"] by (simp_all add: pkcs7Pad_def)

lemma pkcs7Unpad_pkcs7Pad: "pkcs7Unpad (pkcs7Pad bytes) = Some bytes"
proof -
  define k where "k = 16 - length bytes mod 16"
  have k: "0 < k" "k \<le> 16"
    using pad_amount(1,2) [of "length bytes"] by (simp_all add: k_def)
  have p: "pkcs7Pad bytes = bytes @ replicate k (of_nat k)"
    by (simp add: pkcs7Pad_def k_def)
  have l: "last (pkcs7Pad bytes) = of_nat k"
    using k by (simp add: p)
  have u: "unat (of_nat k :: byte) = k"
    using k by (simp add: unat_of_nat)
  show ?thesis
    unfolding pkcs7Unpad_def l u Let_def
    using k by (simp add: p)
qed

lemma blocksOf_append:
  assumes "length block = 16"
  shows "blocksOf (block @ rest) = block # blocksOf rest"
proof -
  have d: "length (block @ rest) div 16 = Suc (length rest div 16)"
    using assms by simp
  have "map (\<lambda>i. take 16 (drop (16 * i) (block @ rest))) [0..<Suc (length rest div 16)] =
        take 16 (drop (16 * 0) (block @ rest)) #
        map (\<lambda>i. take 16 (drop (16 * Suc i) (block @ rest))) [0..<length rest div 16]"
    by (simp only: upt_conv_Cons [of 0] zero_less_Suc list.map map_Suc_upt [symmetric] map_map comp_def)
  moreover have "take 16 (drop (16 * Suc i) (block @ rest)) = take 16 (drop (16 * i) rest)" for i
    using assms by simp
  moreover have "take 16 (drop (16 * 0) (block @ rest)) = block"
    using assms by simp
  ultimately show ?thesis
    unfolding blocksOf_def d by simp
qed

lemma blocksOf_concat: "\<forall>b\<in>set blocks. length b = 16 \<Longrightarrow> blocksOf (concat blocks) = blocks"
proof (induction blocks)
  case Nil
  show ?case by (simp add: blocksOf_def)
next
  case (Cons b blocks)
  then show ?case by (simp add: blocksOf_append)
qed

lemma length_concat_blocks: "\<forall>b\<in>set blocks. length b = 16 \<Longrightarrow> length (concat blocks) = 16 * length blocks"
  by (induction blocks) simp_all

text \<open>A sequence of whole blocks is the concatenation of its blocks.\<close>

lemma concat_blocksOf:
  "length bytes mod 16 = 0 \<Longrightarrow>
     concat (blocksOf bytes) = bytes \<and> (\<forall>b\<in>set (blocksOf bytes). length b = 16)"
proof (induction "length bytes" arbitrary: bytes rule: less_induct)
  case less
  show ?case
  proof (cases "bytes = []")
    case True
    then show ?thesis by (simp add: blocksOf_def)
  next
    case False
    then have "0 < length bytes" by simp
    then have l: "16 \<le> length bytes"
      using less.prems by (metis mod_less nat_neq_iff not_le)
    define block where "block = take 16 bytes"
    define rest where "rest = drop 16 bytes"
    have b: "bytes = block @ rest" "length block = 16"
      using l by (simp_all add: block_def rest_def)
    have r: "length rest < length bytes" "length rest mod 16 = 0"
      using l less.prems by (simp_all add: rest_def mod_diff_right_eq [symmetric] le_mod_geq [symmetric])
    from less.hyps [OF r] have "concat (blocksOf rest) = rest \<and> (\<forall>b\<in>set (blocksOf rest). length b = 16)" .
    then show ?thesis
      using b by (simp add: blocksOf_append)
  qed
qed

lemma length_xorBytes: "length (xorBytes a b) = min (length a) (length b)"
  by (simp add: xorBytes_def)

lemma xorBytes_twice: "length a = length b \<Longrightarrow> xorBytes (xorBytes a b) b = a"
proof (induction a b rule: list_induct2)
  case Nil
  show ?case by (simp add: xorBytes_def)
next
  case (Cons x xs y ys)
  then show ?case by (simp add: xorBytes_def xor.assoc)
qed

text \<open>Taking a combination apart with a vector that differs in one byte changes that one byte.\<close>

lemma xorBytes_altered:
  "length a = length b \<Longrightarrow>
     xorBytes (xorBytes a b) (b[j := y]) = a[j := a ! j XOR b ! j XOR y]"
proof (induction a b arbitrary: j rule: list_induct2)
  case Nil
  show ?case by (simp add: xorBytes_def)
next
  case (Cons x xs z zs)
  have t: "xorBytes (xorBytes xs zs) zs = xs"
    using Cons.hyps by (rule xorBytes_twice)
  show ?case
  proof (cases j)
    case 0
    then show ?thesis using t by (simp add: xorBytes_def xor.assoc)
  next
    case (Suc k)
    then show ?thesis using Cons.IH [of k] by (simp add: xorBytes_def xor.assoc)
  qed
qed

lemma cbc_round_trip:
  assumes "\<forall>b. length b = 16 \<longrightarrow> length (enc b) = 16 \<and> dec (enc b) = b"
    and "\<forall>b\<in>set blocks. length b = 16" and "length previous = 16"
  shows "cbcDecrypt dec previous (cbcEncrypt enc previous blocks) = blocks \<and>
         (\<forall>c\<in>set (cbcEncrypt enc previous blocks). length c = 16)"
  using assms(2,3)
proof (induction blocks arbitrary: previous)
  case Nil
  show ?case by simp
next
  case (Cons block blocks)
  define c where "c = enc (xorBytes block previous)"
  have x: "length (xorBytes block previous) = 16"
    using Cons.prems by (simp add: length_xorBytes)
  then have c: "length c = 16" "dec c = xorBytes block previous"
    using assms(1) by (simp_all add: c_def)
  have "xorBytes (dec c) previous = block"
    using Cons.prems by (simp add: c xorBytes_twice)
  moreover have "cbcDecrypt dec c (cbcEncrypt enc c blocks) = blocks \<and>
         (\<forall>c\<in>set (cbcEncrypt enc c blocks). length c = 16)"
    using Cons.IH [of c] Cons.prems(1) c(1) by simp
  ultimately show ?case
    using c(1) by (simp add: c_def [symmetric])
qed

lemma cbc_altered_vector:
  assumes "\<forall>b. length b = 16 \<longrightarrow> length (enc b) = 16 \<and> dec (enc b) = b"
    and "\<forall>b\<in>set (block # blocks). length b = 16" and "length previous = 16"
  shows "cbcDecrypt dec (previous[j := y]) (cbcEncrypt enc previous (block # blocks)) =
           block[j := block ! j XOR previous ! j XOR y] # blocks"
proof -
  define c where "c = enc (xorBytes block previous)"
  have x: "length (xorBytes block previous) = 16"
    using assms(2,3) by (simp add: length_xorBytes)
  then have c: "length c = 16" "dec c = xorBytes block previous"
    using assms(1) by (simp_all add: c_def)
  have "xorBytes (dec c) (previous[j := y]) = block[j := block ! j XOR previous ! j XOR y]"
    using assms(2,3) by (simp add: c xorBytes_altered)
  moreover have "cbcDecrypt dec c (cbcEncrypt enc c blocks) = blocks"
    using cbc_round_trip [OF assms(1), of blocks c] assms(2) c(1) by simp
  ultimately show ?thesis
    by (simp add: c_def [symmetric])
qed

text \<open>
  For a block transformation that keeps the length of a block and is undone by its
  inverse, the decipher returns what the cipher was given.
\<close>

lemma cipherRun_blocks:
  assumes "\<forall>b. length b = 16 \<longrightarrow>
             length (encryptBlock lib key b) = 16 \<and> decryptBlock lib key (encryptBlock lib key b) = b"
    and "length iv = 16"
  shows "blocksOf (cipherRun lib key iv bytes) =
           cbcEncrypt (encryptBlock lib key) iv (blocksOf (pkcs7Pad bytes))"
    and "cipherRun lib key iv bytes \<noteq> []"
    and "length (cipherRun lib key iv bytes) mod 16 = 0"
proof -
  let ?ps = "blocksOf (pkcs7Pad bytes)"
  let ?cs = "cbcEncrypt (encryptBlock lib key) iv ?ps"
  have p: "concat ?ps = pkcs7Pad bytes" "\<forall>b\<in>set ?ps. length b = 16"
    using concat_blocksOf [OF length_pkcs7Pad(1), of bytes] by simp_all
  have ne: "?ps \<noteq> []"
    using p(1) length_pkcs7Pad(2) [of bytes] by auto
  have c: "\<forall>c\<in>set ?cs. length c = 16"
    using cbc_round_trip [OF assms(1) p(2) assms(2)] by simp
  show "blocksOf (cipherRun lib key iv bytes) = ?cs"
    unfolding cipherRun_def by (rule blocksOf_concat [OF c])
  have "?cs \<noteq> []"
    using ne by (cases ?ps) simp_all
  then have "0 < length ?cs" by simp
  moreover have "length (cipherRun lib key iv bytes) = 16 * length ?cs"
    unfolding cipherRun_def by (rule length_concat_blocks [OF c])
  ultimately have "0 < length (cipherRun lib key iv bytes)"
    by simp
  then show "cipherRun lib key iv bytes \<noteq> []"
    by auto
  show "length (cipherRun lib key iv bytes) mod 16 = 0"
    using length_concat_blocks [OF c] by (simp add: cipherRun_def)
qed

lemma decipherRun_cipherRun:
  assumes "\<forall>b. length b = 16 \<longrightarrow>
             length (encryptBlock lib key b) = 16 \<and> decryptBlock lib key (encryptBlock lib key b) = b"
    and "length iv = 16"
  shows "decipherRun lib key iv (cipherRun lib key iv bytes) = Some bytes"
proof -
  let ?ps = "blocksOf (pkcs7Pad bytes)"
  have p: "concat ?ps = pkcs7Pad bytes" "\<forall>b\<in>set ?ps. length b = 16"
    using concat_blocksOf [OF length_pkcs7Pad(1), of bytes] by simp_all
  have "cbcDecrypt (decryptBlock lib key) iv (cbcEncrypt (encryptBlock lib key) iv ?ps) = ?ps"
    using cbc_round_trip [OF assms(1) p(2) assms(2)] by simp
  then show ?thesis
    using cipherRun_blocks [OF assms, of bytes]
    by (simp add: decipherRun_def p(1) pkcs7Unpad_pkcs7Pad)
qed

text \<open>
  With a vector that differs in byte \<open>j\<close>, below the length of the plaintext, the
  decipher does not fail: it returns the plaintext with byte \<open>j\<close> changed by the
  difference of the two vectors.
\<close>

lemma decipherRun_altered_vector:
  assumes "\<forall>b. length b = 16 \<longrightarrow>
             length (encryptBlock lib key b) = 16 \<and> decryptBlock lib key (encryptBlock lib key b) = b"
    and "length iv = 16" and "j < 16" and "j < length bytes"
  shows "decipherRun lib key (iv[j := y]) (cipherRun lib key iv bytes) =
           Some (bytes[j := bytes ! j XOR iv ! j XOR y])"
proof -
  let ?ps = "blocksOf (pkcs7Pad bytes)"
  have p: "concat ?ps = pkcs7Pad bytes" "\<forall>b\<in>set ?ps. length b = 16"
    using concat_blocksOf [OF length_pkcs7Pad(1), of bytes] by simp_all
  have "?ps \<noteq> []"
    using p(1) length_pkcs7Pad(2) [of bytes] by auto
  then obtain block blocks where b: "?ps = block # blocks"
    by (cases ?ps) auto
  have lb: "length block = 16" and pb: "\<forall>b\<in>set (block # blocks). length b = 16"
    using p(2) b by simp_all
  have pad: "pkcs7Pad bytes = block @ concat blocks"
    using p(1) b by simp
  define x where "x = bytes ! j XOR iv ! j XOR y"
  have "block ! j = pkcs7Pad bytes ! j"
    using assms(3) lb by (simp add: pad nth_append)
  also have "\<dots> = bytes ! j"
    using assms(4) by (simp add: pkcs7Pad_def nth_append)
  finally have bj: "block ! j XOR iv ! j XOR y = x"
    by (simp add: x_def)
  have "cbcDecrypt (decryptBlock lib key) (iv[j := y])
          (cbcEncrypt (encryptBlock lib key) iv (block # blocks)) = block[j := x] # blocks"
    using cbc_altered_vector [OF assms(1) pb assms(2), of j y] bj by simp
  then have "concat (cbcDecrypt (decryptBlock lib key) (iv[j := y])
          (cbcEncrypt (encryptBlock lib key) iv ?ps)) = block[j := x] @ concat blocks"
    by (simp only: b concat.simps)
  also have "block[j := x] @ concat blocks = (pkcs7Pad bytes)[j := x]"
    using assms(3) lb by (simp add: pad list_update_append)
  also have "(pkcs7Pad bytes)[j := x] = pkcs7Pad (bytes[j := x])"
    using assms(4) by (simp add: pkcs7Pad_def list_update_append)
  finally have "concat (cbcDecrypt (decryptBlock lib key) (iv[j := y])
          (blocksOf (cipherRun lib key iv bytes))) = pkcs7Pad (bytes[j := x])"
    by (simp only: cipherRun_blocks(1) [OF assms(1,2)])
  then show ?thesis
    using cipherRun_blocks(2,3) [OF assms(1,2), of bytes]
    by (simp add: decipherRun_def pkcs7Unpad_pkcs7Pad x_def)
qed

subsection \<open>Hexadecimal strings and the format of a ciphertext\<close>

lemma hexDigits_checked:
  "list_all (\<lambda>n. hexValue (hexDigit n) = Some n \<and> hexDigit n \<noteq> CHR '':'') [0..<16]"
  by code_simp

lemma hexValue_hexDigit: "n < 16 \<Longrightarrow> hexValue (hexDigit n) = Some n"
  using hexDigits_checked by (simp add: list_all_iff)

lemma hexDigit_not_colon: "n < 16 \<Longrightarrow> hexDigit n \<noteq> CHR '':''"
  using hexDigits_checked by (simp add: list_all_iff)

lemma byte_nibbles: "unat (b :: byte) div 16 < 16" "unat (b :: byte) mod 16 < 16"
proof -
  have "unat b < 256" using unsigned_less [of b] by simp
  then show "unat b div 16 < 16" by simp
  show "unat b mod 16 < 16" by simp
qed

lemma hexEncode_Cons:
  "hexEncode (b # bs) = hexDigit (unat b div 16) # hexDigit (unat b mod 16) # hexEncode bs"
  by (simp add: hexEncode_def)

lemma hexEncode_Nil: "hexEncode [] = []"
  by (simp add: hexEncode_def)

lemma hexDecode_hexEncode: "hexDecode (hexEncode bs) = bs"
proof (induction bs)
  case Nil
  show ?case by (simp add: hexEncode_Nil)
next
  case (Cons b bs)
  have "(of_nat (16 * (unat b div 16) + unat b mod 16) :: byte) = b"
    by simp
  then show ?case
    using Cons by (simp add: hexEncode_Cons hexValue_hexDigit byte_nibbles)
qed

lemma hexEncode_no_colon: "CHR '':'' \<notin> set (hexEncode bs)"
  by (induction bs)
     (simp_all add: hexEncode_Nil hexEncode_Cons hexDigit_not_colon [THEN not_sym] byte_nibbles)

lemma length_hexEncode: "length (hexEncode bs) = 2 * length bs"
  by (induction bs) (simp_all add: hexEncode_Nil hexEncode_Cons)

lemma split_no_sep: "sep \<notin> set s \<Longrightarrow> split sep s = [s]"
  by (induction s) auto

lemma split_append: "sep \<notin> set a \<Longrightarrow> split sep (a @ sep # b) = a # split sep b"
  by (induction a) auto

lemma decrypt_parts:
  assumes "CHR '':'' \<notin> set a" and "CHR '':'' \<notin> set b" and "a \<noteq> []" and "b \<noteq> []"
  shows "decrypt lib key (Some (a @ CHR '':'' # b)) =
           (if \<not> validCipherArgs (hexDecode key) (hexDecode a) then Inl DecryptionFailed
            else (case decipherRun lib (hexDecode key) (hexDecode a) (hexDecode b) of
                    None \<Rightarrow> Inl DecryptionFailed
                  | Some bytes \<Rightarrow> Inr (Some (utf8String lib bytes))))"
  using assms by (simp add: decrypt_def split_append split_no_sep)

lemma hexDecode_step:
  "hexDecode (c # d # rest) =
     (if hexValue c = None \<or> hexValue d = None then []
      else of_nat (16 * the (hexValue c) + the (hexValue d)) # hexDecode rest)"
  by (cases "hexValue c"; cases "hexValue d") simp_all

lemma length_hexDecode_le: "2 * length (hexDecode s) \<le> length s"
proof (induction s rule: induct_list012)
  case 1
  show ?case by simp
next
  case (2 x)
  show ?case by simp
next
  case (3 x y zs)
  have "length (hexDecode (x # y # zs)) \<le> Suc (length (hexDecode zs))"
    by (simp only: hexDecode_step) simp
  then show ?case using 3(1) by simp
qed

lemma hexDecode_prefix_hex:
  "n \<le> length (hexDecode s) \<Longrightarrow> j < 2 * n \<Longrightarrow> hexValue (s ! j) \<noteq> None"
proof (induction s arbitrary: n j rule: induct_list012)
  case 1
  then show ?case by simp
next
  case (2 x)
  then show ?case by simp
next
  case (3 c d rest)
  note ih = "3.IH"(1)
  have n: "n \<le> length (hexDecode (c # d # rest))" and j: "j < 2 * n"
    by (rule "3.prems")+
  show ?case
  proof (cases "hexValue c = None \<or> hexValue d = None")
    case True
    then have "hexDecode (c # d # rest) = []" by (simp only: hexDecode_step if_True)
    then have "n = 0" using n by (simp only: list.size)
    then show ?thesis using j by simp
  next
    case False
    then have "hexDecode (c # d # rest) =
        of_nat (16 * the (hexValue c) + the (hexValue d)) # hexDecode rest"
      by (simp only: hexDecode_step if_False)
    then have "length (hexDecode (c # d # rest)) = Suc (length (hexDecode rest))"
      by (simp only: list.size) 
    then have n': "n - 1 \<le> length (hexDecode rest)" using n by linarith
    consider "j = 0" | "j = 1" | "j \<ge> 2" by linarith
    then show ?thesis
    proof cases
      case 1
      then have "(c # d # rest) ! j = c" by simp
      then show ?thesis using False by metis
    next
      case 2
      then have "(c # d # rest) ! j = d" by simp
      then show ?thesis using False by metis
    next
      case 3
      then have j': "j = Suc (Suc (j - 2))" by linarith
      have "j - 2 < 2 * (n - 1)" using j 3 by linarith
      then have "hexValue (rest ! (j - 2)) \<noteq> None"
        using ih [OF n'] by blast
      moreover have "(c # d # rest) ! Suc (Suc (j - 2)) = rest ! (j - 2)" by simp
      ultimately show ?thesis using j' by metis
    qed
  qed
qed

lemma decrypt_nonhex_iv:
  assumes ca: "CHR '':'' \<notin> set a" and cb: "CHR '':'' \<notin> set b"
    and la: "length a = 32" and nb: "b \<noteq> []" and i: "i < 32" and c: "hexValue c = None"
  shows "decrypt lib key (Some ((a @ CHR '':'' # b)[i := c])) = Inl DecryptionFailed"
proof -
  have u: "(a @ CHR '':'' # b)[i := c] = a[i := c] @ CHR '':'' # b"
    using i la by (simp add: list_update_append)
  show ?thesis
  proof (cases "c = CHR '':''")
    case True
    have t: "CHR '':'' \<notin> set (take i a)" and d: "CHR '':'' \<notin> set (drop (Suc i) a)"
      using ca by (auto dest: in_set_takeD in_set_dropD)
    have "a[i := c] = take i a @ CHR '':'' # drop (Suc i) a"
      using i la True by (simp add: upd_conv_take_nth_drop)
    then have "(a @ CHR '':'' # b)[i := c] = take i a @ CHR '':'' # (drop (Suc i) a @ CHR '':'' # b)"
      using u by simp
    then have s: "split CHR '':'' ((a @ CHR '':'' # b)[i := c]) = [take i a, drop (Suc i) a, b]"
      using t d cb by (simp add: split_append split_no_sep)
    have "2 * length (hexDecode (take i a)) \<le> i"
      using length_hexDecode_le [of "take i a"] i la by simp
    then have "length (hexDecode (take i a)) \<noteq> 16"
      using i by linarith
    then show ?thesis
      using s by (simp add: decrypt_def validCipherArgs_def)
  next
    case False
    have n: "CHR '':'' \<notin> set (a[i := c])"
      using ca False set_update_subset_insert [of a i c] by auto
    have e: "a[i := c] \<noteq> []"
      using la by auto
    have "length (hexDecode (a[i := c])) \<noteq> 16"
    proof
      assume "length (hexDecode (a[i := c])) = 16"
      then have "hexValue (a[i := c] ! i) \<noteq> None"
        using hexDecode_prefix_hex [of 16 "a[i := c]" i] i by simp
      then show False using c i la by simp
    qed
    then show ?thesis
      using u by (simp add: decrypt_parts [OF n cb e nb] validCipherArgs_def)
  qed
qed

lemma hexValue_less: "hexValue c = Some v \<Longrightarrow> v < 16"
  by (auto simp: hexValue_def Let_def split: if_splits)

lemma hexValue_colon: "hexValue CHR '':'' = None"
  by (simp add: hexValue_def)

text \<open>
  Replacing character \<open>i\<close> of the hexadecimal form of a byte sequence by a digit of
  value \<open>v\<close> and reading the result back changes byte \<open>i div 2\<close> and no other.
\<close>

lemma hexDecode_replaced:
  "i < 2 * length bytes \<Longrightarrow> hexValue c = Some v \<Longrightarrow>
     hexDecode ((hexEncode bytes)[i := c]) =
       bytes[i div 2 := replaceDigit i v (bytes ! (i div 2))]"
proof (induction bytes arbitrary: i)
  case Nil
  then show ?case by simp
next
  case (Cons b bytes)
  have same: "(of_nat (16 * (unat b div 16) + unat b mod 16) :: byte) = b"
    by simp
  consider "i = 0" | "i = 1" | k where "i = Suc (Suc k)"
    by (cases i; cases "i - 1") auto
  then show ?case
  proof cases
    case 1
    then show ?thesis
      using Cons.prems(2)
      by (simp add: hexEncode_Cons hexValue_hexDigit byte_nibbles hexDecode_hexEncode replaceDigit_def)
  next
    case 2
    then show ?thesis
      using Cons.prems(2)
      by (simp add: hexEncode_Cons hexValue_hexDigit byte_nibbles hexDecode_hexEncode replaceDigit_def)
  next
    case 3
    then have k: "k < 2 * length bytes"
      using Cons.prems(1) by simp
    have r: "replaceDigit (Suc (Suc k)) v = replaceDigit k v"
      by (simp add: replaceDigit_def fun_eq_iff)
    show ?thesis
      using Cons.IH [OF k Cons.prems(2)] same
      by (simp add: 3 hexEncode_Cons hexValue_hexDigit byte_nibbles r)
  qed
qed

lemma decrypt_hex_iv:
  assumes inv: "\<forall>b. length b = 16 \<longrightarrow>
             length (encryptBlock lib (hexDecode key) b) = 16 \<and>
             decryptBlock lib (hexDecode key) (encryptBlock lib (hexDecode key) b) = b"
    and lk: "length (hexDecode key) = 32" and li: "length iv = 16"
    and i: "i < 32" and c: "hexValue c = Some v" and j: "i div 2 < length bytes"
  shows "decrypt lib key (Some ((hexEncode iv @ CHR '':'' # hexEncode (cipherRun lib (hexDecode key) iv bytes))[i := c])) =
           Inr (Some (utf8String lib
             (bytes[i div 2 := bytes ! (i div 2) XOR iv ! (i div 2) XOR replaceDigit i v (iv ! (i div 2))])))"
proof -
  let ?a = "(hexEncode iv)[i := c]"
  let ?b = "hexEncode (cipherRun lib (hexDecode key) iv bytes)"
  have u: "(hexEncode iv @ CHR '':'' # ?b)[i := c] = ?a @ CHR '':'' # ?b"
    using i li by (simp add: list_update_append length_hexEncode)
  have "c \<noteq> CHR '':''"
    using c hexValue_colon by auto
  then have ca: "CHR '':'' \<notin> set ?a"
    using hexEncode_no_colon [of iv] set_update_subset_insert [of "hexEncode iv" i c] by auto
  have cb: "CHR '':'' \<notin> set ?b"
    by (rule hexEncode_no_colon)
  have "length ?a = 32"
    using li by (simp add: length_hexEncode)
  then have na: "?a \<noteq> []"
    by auto
  have "length ?b \<noteq> 0"
    using cipherRun_blocks(2) [OF inv li, of bytes] by (simp add: length_hexEncode)
  then have nb: "?b \<noteq> []" by simp
  have d: "hexDecode ?a = iv[i div 2 := replaceDigit i v (iv ! (i div 2))]"
    using i li c by (simp add: hexDecode_replaced)
  have v: "validCipherArgs (hexDecode key) (hexDecode ?a)"
    using lk li by (simp add: d validCipherArgs_def)
  have "i div 2 < 16"
    using i by simp
  then have r: "decipherRun lib (hexDecode key) (hexDecode ?a) (cipherRun lib (hexDecode key) iv bytes) =
           Some (bytes[i div 2 := bytes ! (i div 2) XOR iv ! (i div 2) XOR replaceDigit i v (iv ! (i div 2))])"
    unfolding d using decipherRun_altered_vector [OF inv li _ j] by blast
  show ?thesis
    unfolding u using v r by (simp add: decrypt_parts [OF ca cb na nb] hexDecode_hexEncode)
qed

text \<open>What \<open>decrypt\<close> makes of an unaltered ciphertext.\<close>

lemma decrypt_unaltered:
  assumes inv: "\<forall>b. length b = 16 \<longrightarrow>
             length (encryptBlock lib (hexDecode key) b) = 16 \<and>
             decryptBlock lib (hexDecode key) (encryptBlock lib (hexDecode key) b) = b"
    and lk: "length (hexDecode key) = 32" and li: "length iv = 16"
  shows "decrypt lib key (Some (hexEncode iv @ CHR '':'' # hexEncode (cipherRun lib (hexDecode key) iv bytes))) =
           Inr (Some (utf8String lib bytes))"
proof -
  let ?a = "hexEncode iv"
  let ?b = "hexEncode (cipherRun lib (hexDecode key) iv bytes)"
  have ca: "CHR '':'' \<notin> set ?a" and cb: "CHR '':'' \<notin> set ?b"
    by (rule hexEncode_no_colon)+
  have "length ?a = 32"
    using li by (simp add: length_hexEncode)
  then have na: "?a \<noteq> []" by auto
  have "length ?b \<noteq> 0"
    using cipherRun_blocks(2) [OF inv li, of bytes] by (simp add: length_hexEncode)
  then have nb: "?b \<noteq> []" by simp
  show ?thesis
    using lk li decipherRun_cipherRun [OF inv li, of bytes]
    by (simp add: decrypt_parts [OF ca cb na nb] hexDecode_hexEncode validCipherArgs_def)
qed

subsection \<open>The examples under the stand-in block transformation\<close>

lemma exampleKey_bytes: "length (hexDecode exampleKey) = 32" "hd (hexDecode exampleKey) = 0"
  by (simp_all add: exampleKey_def hexValue_def)

lemma standInLib_inverse:
  "\<forall>b. length b = 16 \<longrightarrow>
     length (encryptBlock standInLib key b) = 16 \<and>
     decryptBlock standInLib key (encryptBlock standInLib key b) = b"
  by (simp add: standInLib_def comp_def)

lemma replicate_14: "replicate 14 x = [x, x, x, x, x, x, x, x, x, x, x, x, x, x]"
  by (simp add: numeral_eq_Suc)

lemma blocksOf_one:
  "blocksOf [a0, a1, a2, a3, a4, a5, a6, a7, a8, a9, a10, a11, a12, a13, a14, a15] =
     [[a0, a1, a2, a3, a4, a5, a6, a7, a8, a9, a10, a11, a12, a13, a14, a15]]"
  by (simp add: blocksOf_def)

lemma utf8Bytes_hi: "utf8Bytes (js ''hi'') = [104, 105]"
  by (simp add: utf8Bytes_def js_def encodeCodePoint_def isHighSurrogate_def isLowSurrogate_def)

lemma cipherRun_hi:
  "cipherRun standInLib (hexDecode exampleKey) exampleIv [104, 105] =
     [196, 105, 13, 14, 11, 12, 9, 10, 7, 8, 5, 6, 3, 4, 1, 2]"
  by (simp add: cipherRun_def pkcs7Pad_def replicate_14 blocksOf_one xorBytes_def standInLib_def
      exampleKey_bytes exampleIv_def)

lemma hexEncode_hi:
  "hexEncode [196, 105, 13, 14, 11, 12, 9, 10, 7, 8, 5, 6, 3, 4, 1, 2] =
     ''c4690d0e0b0c090a0708050603040102''"
  "hexEncode exampleIv = ''ab0102030405060708090a0b0c0d0e0f''"
  by (simp_all add: hexEncode_def hexDigit_def exampleIv_def)

lemma encrypt_hi:
  "encrypt standInLib exampleKey exampleIv (js ''hi'') =
     Inr (Some ''ab0102030405060708090a0b0c0d0e0f:c4690d0e0b0c090a0708050603040102'')"
proof -
  have "js ''hi'' \<noteq> []"
    by (simp add: js_def)
  moreover have "validCipherArgs (hexDecode exampleKey) exampleIv"
    by (simp add: validCipherArgs_def exampleKey_bytes exampleIv_def)
  ultimately show ?thesis
    by (simp add: encrypt_def utf8Bytes_hi cipherRun_hi hexEncode_hi)
qed

lemma utf8String_xi: "utf8String standInLib [120, 105] = js ''xi''"
  by (simp add: utf8String_def decodeUtf8_def js_def codeUnits_def)

lemma replaced_hi: "replaceDigit 0 11 (171 :: byte) = 187" "(104 :: byte) XOR 171 XOR 187 = 120"
  by (simp_all add: replaceDigit_def)

lemma decrypt_altered_hi:
  "decrypt standInLib exampleKey
     (Some ''bb0102030405060708090a0b0c0d0e0f:c4690d0e0b0c090a0708050603040102'') =
     Inr (Some (js ''xi''))"
proof -
  have li: "length exampleIv = 16"
    by (simp add: exampleIv_def)
  have b: "hexValue CHR ''b'' = Some 11"
    by (simp add: hexValue_def)
  have j: "0 div 2 < length [104, 105 :: byte]"
    by simp
  have u: "(hexEncode exampleIv @ CHR '':'' #
            hexEncode (cipherRun standInLib (hexDecode exampleKey) exampleIv [104, 105]))[0 := CHR ''b''] =
           ''bb0102030405060708090a0b0c0d0e0f:c4690d0e0b0c090a0708050603040102''"
    by (simp add: cipherRun_hi hexEncode_hi)
  have i: "exampleIv ! 0 = 171"
    by (simp add: exampleIv_def)
  show ?thesis
    using decrypt_hex_iv [where i = 0 and lib = standInLib, OF standInLib_inverse exampleKey_bytes(1) li _ b j]
    by (simp add: u i replaced_hi utf8String_xi)
qed

lemma lone_surrogate_bytes:
  "utf8Bytes loneSurrogate = [239, 191, 189]" "utf8String standInLib [239, 191, 189] = [65533]"
  by (simp_all add: utf8Bytes_def loneSurrogate_def encodeCodePoint_def isHighSurrogate_def
        utf8String_def decodeUtf8_def isContinuation_def codeUnits_def)

lemma decryptEncrypted_lone_surrogate:
  "decryptEncrypted standInLib exampleKey exampleIv loneSurrogate = Inr (Some [65533])"
proof -
  have li: "length exampleIv = 16"
    by (simp add: exampleIv_def)
  have "loneSurrogate \<noteq> []"
    by (simp add: loneSurrogate_def)
  moreover have "validCipherArgs (hexDecode exampleKey) exampleIv"
    by (simp add: validCipherArgs_def exampleKey_bytes exampleIv_def)
  ultimately show ?thesis
    using decrypt_unaltered [where lib = standInLib and bytes = "utf8Bytes loneSurrogate",
        OF standInLib_inverse exampleKey_bytes(1) li]
    by (simp add: decryptEncrypted_def encrypt_def lone_surrogate_bytes)
qed

text \<open>
  C8, as the code has it, for a key of 32 bytes, a vector of 16 bytes and a block
  transformation that its inverse undoes, as that of AES does. \<open>decrypt(encrypt(''))\<close>
  is \<open>null\<close>, because \<open>encrypt\<close> returns \<open>null\<close> for the empty string and
  \<open>decrypt\<close> returns \<open>null\<close> for \<open>null\<close>. For every non-empty string \<open>x\<close>,
  \<open>decrypt(encrypt(x))\<close> is the string decoded from the UTF-8 bytes of \<open>x\<close>, which is
  \<open>x\<close> itself when every surrogate in \<open>x\<close> has its partner. Replacing a
  character of the vector part of a ciphertext by a hexadecimal digit does not make
  \<open>decrypt\<close> fail when the byte it belongs to lies under the plaintext: \<open>decrypt\<close>
  returns the plaintext with that one byte changed by the difference between the old and
  the new byte of the vector. Replacing it by a character that is not a hexadecimal digit
  makes \<open>decrypt\<close> fail with the decryption error.
\<close>

theorem decrypt_encrypt_well_formed:
  assumes "length (hexDecode encryptionKey) = 32"
    and "length iv = IV_LENGTH"
    and "\<forall>b. length b = 16 \<longrightarrow>
           length (encryptBlock lib (hexDecode encryptionKey) b) = 16 \<and>
           decryptBlock lib (hexDecode encryptionKey) (encryptBlock lib (hexDecode encryptionKey) b) = b"
  shows "decryptEncrypted lib encryptionKey iv [] = Inr None \<and>
         (x \<noteq> [] \<longrightarrow>
            decryptEncrypted lib encryptionKey iv x = Inr (Some (utf8String lib (utf8Bytes x)))) \<and>
         (x \<noteq> [] \<and> wellFormed x \<longrightarrow> decryptEncrypted lib encryptionKey iv x = Inr (Some x)) \<and>
         (x \<noteq> [] \<longrightarrow>
            (\<forall>ct i c. encrypt lib encryptionKey iv x = Inr (Some ct) \<and> i < 2 * IV_LENGTH \<longrightarrow>
               (\<forall>v. hexValue c = Some v \<and> i div 2 < length (utf8Bytes x) \<longrightarrow>
                  decrypt lib encryptionKey (Some (ct[i := c])) =
                    Inr (Some (utf8String lib
                      ((utf8Bytes x)[i div 2 := utf8Bytes x ! (i div 2) XOR iv ! (i div 2) XOR
                                                  replaceDigit i v (iv ! (i div 2))])))) \<and>
               (hexValue c = None \<longrightarrow>
                  decrypt lib encryptionKey (Some (ct[i := c])) = Inl DecryptionFailed)))"
proof -
  let ?key = "hexDecode encryptionKey"
  let ?a = "hexEncode iv"
  let ?b = "hexEncode (cipherRun lib ?key iv (utf8Bytes x))"
  let ?ct = "?a @ CHR '':'' # ?b"
  have li: "length iv = 16"
    using assms(2) by (simp add: IV_LENGTH_def)
  have ca: "CHR '':'' \<notin> set ?a" and cb: "CHR '':'' \<notin> set ?b"
    by (rule hexEncode_no_colon)+
  have la: "length ?a = 32"
    using li by (simp add: length_hexEncode)
  then have na: "?a \<noteq> []" by auto
  have "length ?b \<noteq> 0"
    using cipherRun_blocks(2) [OF assms(3) li, of "utf8Bytes x"] by (simp add: length_hexEncode)
  then have nb: "?b \<noteq> []" by simp
  have v: "validCipherArgs ?key iv"
    using assms(1) li by (simp add: validCipherArgs_def)
  have rt: "decipherRun lib ?key iv (cipherRun lib ?key iv (utf8Bytes x)) = Some (utf8Bytes x)"
    by (rule decipherRun_cipherRun [OF assms(3) li])
  have d: "decrypt lib encryptionKey (Some ?ct) = Inr (Some (utf8String lib (utf8Bytes x)))"
    using v rt by (simp add: decrypt_parts [OF ca cb na nb] hexDecode_hexEncode)
  have w: "utf8String lib (utf8Bytes x) = x" if "wellFormed x"
    using decodeUtf8_utf8Bytes [OF that] by (simp add: utf8String_def)
  have empty: "decryptEncrypted lib encryptionKey iv [] = Inr None"
    by (simp add: decryptEncrypted_def encrypt_def decrypt_def)
  have enc: "encrypt lib encryptionKey iv x = Inr (Some ?ct)" if "x \<noteq> []"
    using that v by (simp add: encrypt_def)
  have again: "decryptEncrypted lib encryptionKey iv x = Inr (Some (utf8String lib (utf8Bytes x)))"
    if "x \<noteq> []"
    using enc [OF that] d by (simp add: decryptEncrypted_def)
  have round: "decryptEncrypted lib encryptionKey iv x = Inr (Some x)" if "x \<noteq> []" and "wellFormed x"
    using again [OF that(1)] w [OF that(2)] by simp
  have hex: "decrypt lib encryptionKey (Some (?ct[i := c])) =
      Inr (Some (utf8String lib
        ((utf8Bytes x)[i div 2 := utf8Bytes x ! (i div 2) XOR iv ! (i div 2) XOR
                                    replaceDigit i v (iv ! (i div 2))])))"
    if "i < 2 * IV_LENGTH" and "hexValue c = Some v" and "i div 2 < length (utf8Bytes x)" for i c v
    using that decrypt_hex_iv [OF assms(3,1) li, of i c v "utf8Bytes x"] by (simp add: IV_LENGTH_def)
  have bad: "decrypt lib encryptionKey (Some (?ct[i := c])) = Inl DecryptionFailed"
    if "i < 2 * IV_LENGTH" and "hexValue c = None" for i c
    using that decrypt_nonhex_iv [OF ca cb la nb, of i c lib encryptionKey] by (simp add: IV_LENGTH_def)
  show ?thesis
    using empty again round enc hex bad by auto
qed

text \<open>
  Under the stand-in block transformation: the example string, with a character outside
  ASCII and one outside the basic plane, comes back as it was; the ciphertext of \<open>hi\<close>
  with the first character of its vector changed from \<open>a\<close> to \<open>b\<close> decrypts to
  \<open>xi\<close>; with \<open>g\<close> in that place decryption fails.
\<close>

theorem decrypt_encrypt_well_formed_witness:
  "length (hexDecode exampleKey) = 32 \<and>
   length exampleIv = IV_LENGTH \<and>
   exampleText \<noteq> [] \<and> wellFormed exampleText \<and>
   decryptEncrypted standInLib exampleKey exampleIv exampleText = Inr (Some exampleText) \<and>
   encrypt standInLib exampleKey exampleIv (js ''hi'') =
     Inr (Some ''ab0102030405060708090a0b0c0d0e0f:c4690d0e0b0c090a0708050603040102'') \<and>
   hexValue CHR ''b'' = Some 11 \<and>
   decrypt standInLib exampleKey
     (Some ''bb0102030405060708090a0b0c0d0e0f:c4690d0e0b0c090a0708050603040102'') =
     Inr (Some (js ''xi'')) \<and>
   hexValue CHR ''g'' = None \<and>
   decrypt standInLib exampleKey
     (Some ''gb0102030405060708090a0b0c0d0e0f:c4690d0e0b0c090a0708050603040102'') =
     Inl DecryptionFailed"
proof -
  let ?ct = "''ab0102030405060708090a0b0c0d0e0f:c4690d0e0b0c090a0708050603040102''"
  have li: "length exampleIv = IV_LENGTH"
    by (simp add: exampleIv_def IV_LENGTH_def)
  have nt: "exampleText \<noteq> []" "wellFormed exampleText"
    by (simp_all add: exampleText_def isHighSurrogate_def isLowSurrogate_def)
  have nh: "js ''hi'' \<noteq> []"
    by (simp add: js_def)
  have b: "hexValue CHR ''b'' = Some 11" and g: "hexValue CHR ''g'' = None"
    by (simp_all add: hexValue_def)
  have i: "(0::nat) < 2 * IV_LENGTH" "0 div 2 < length (utf8Bytes (js ''hi''))"
    by (simp_all add: IV_LENGTH_def utf8Bytes_hi)
  have u: "?ct[0 := CHR ''b''] = ''bb0102030405060708090a0b0c0d0e0f:c4690d0e0b0c090a0708050603040102''"
    "?ct[0 := CHR ''g''] = ''gb0102030405060708090a0b0c0d0e0f:c4690d0e0b0c090a0708050603040102''"
    by simp_all
  have e: "exampleIv ! (0 div 2) = 171"
    by (simp add: exampleIv_def)
  note t = decrypt_encrypt_well_formed [OF exampleKey_bytes(1) li standInLib_inverse]
  from t [of exampleText] nt
  have r: "decryptEncrypted standInLib exampleKey exampleIv exampleText = Inr (Some exampleText)"
    by blast
  from t [of "js ''hi''"] nh encrypt_hi i(1)
  have h: "\<forall>v. hexValue CHR ''b'' = Some v \<and> 0 div 2 < length (utf8Bytes (js ''hi'')) \<longrightarrow>
      decrypt standInLib exampleKey (Some (?ct[0 := CHR ''b''])) =
        Inr (Some (utf8String standInLib
          ((utf8Bytes (js ''hi''))[0 div 2 := utf8Bytes (js ''hi'') ! (0 div 2) XOR exampleIv ! (0 div 2) XOR
                                      replaceDigit 0 v (exampleIv ! (0 div 2))])))"
    and f: "hexValue CHR ''g'' = None \<longrightarrow>
      decrypt standInLib exampleKey (Some (?ct[0 := CHR ''g''])) = Inl DecryptionFailed"
    by blast+
  from h b i(2)
  have "decrypt standInLib exampleKey (Some (?ct[0 := CHR ''b''])) =
        Inr (Some (utf8String standInLib
          ((utf8Bytes (js ''hi''))[0 div 2 := utf8Bytes (js ''hi'') ! (0 div 2) XOR exampleIv ! (0 div 2) XOR
                                      replaceDigit 0 11 (exampleIv ! (0 div 2))])))"
    by blast
  then have x: "decrypt standInLib exampleKey (Some (?ct[0 := CHR ''b''])) = Inr (Some (js ''xi''))"
    by (simp only: e utf8Bytes_hi) (simp add: replaced_hi utf8String_xi)
  from f g have y: "decrypt standInLib exampleKey (Some (?ct[0 := CHR ''g''])) = Inl DecryptionFailed"
    by blast
  show ?thesis
    using exampleKey_bytes(1) li nt r encrypt_hi b g x y by (simp only: u) simp
qed

text \<open>
  The empty string comes back as \<open>null\<close>, and a string that is one surrogate without
  its partner comes back as U+FFFD. The ciphertext of \<open>hi\<close> with the first character of
  its vector altered from \<open>a\<close> to \<open>b\<close> decrypts without error, to \<open>xi\<close>.
\<close>

theorem decrypt_encrypt_empty_counterexample:
  "decryptEncrypted standInLib exampleKey exampleIv [] = Inr None \<and>
   decryptEncrypted standInLib exampleKey exampleIv loneSurrogate = Inr (Some [65533]) \<and>
   loneSurrogate = [55296] \<and>
   encrypt standInLib exampleKey exampleIv (js ''hi'') =
     Inr (Some ''ab0102030405060708090a0b0c0d0e0f:c4690d0e0b0c090a0708050603040102'') \<and>
   decrypt standInLib exampleKey
     (Some ''bb0102030405060708090a0b0c0d0e0f:c4690d0e0b0c090a0708050603040102'') =
     Inr (Some (js ''xi''))"
proof -
  have "decryptEncrypted standInLib exampleKey exampleIv [] = Inr None"
    by (simp add: decryptEncrypted_def encrypt_def decrypt_def)
  then show ?thesis
    using decryptEncrypted_lone_surrogate encrypt_hi decrypt_altered_hi
    by (simp add: loneSurrogate_def)
qed

section \<open>Card number validation against the Luhn checksum\<close>









end
